theory Spec2Isabelle
  imports Main "HOL-Library.Word" "HOL-Library.Sublist"
begin

section \<open>JavaScript strings\<close>

text \<open>
  A JavaScript string is a sequence of UTF-16 code units. \<open>indexOf\<close>, \<open>slice\<close>,
  \<open>includes\<close>, \<open>trim\<close>, indexing and regular expressions without the \<open>u\<close> flag all
  work on code units, so a string is modelled as a list of 16-bit words. ASCII literals of
  the source are written \<open>str ''...''\<close>.
\<close>

type_synonym jschar = "16 word"
type_synonym jsstring = "jschar list"

definition str :: "string \<Rightarrow> jsstring" where
  "str s = map of_char s"

text \<open>
  The code units matched by \<open>\s\<close> and stripped by \<open>String.prototype.trim\<close>
  (ECMAScript WhiteSpace and LineTerminator).
\<close>

definition isWs :: "jschar \<Rightarrow> bool" where
  "isWs c = (c = 0x09 \<or> c = 0x0A \<or> c = 0x0B \<or> c = 0x0C \<or> c = 0x0D \<or> c = 0x20
     \<or> c = 0xA0 \<or> c = 0x1680 \<or> (0x2000 \<le> c \<and> c \<le> 0x200A) \<or> c = 0x2028
     \<or> c = 0x2029 \<or> c = 0x202F \<or> c = 0x205F \<or> c = 0x3000 \<or> c = 0xFEFF)"

definition trim :: "jsstring \<Rightarrow> jsstring" where
  "trim s = rev (dropWhile isWs (rev (dropWhile isWs s)))"

text \<open>The number of Unicode code points of a string: a surrogate pair counts once.\<close>

definition isHighSurrogate :: "jschar \<Rightarrow> bool" where
  "isHighSurrogate c = (0xD800 \<le> c \<and> c \<le> 0xDBFF)"

definition isLowSurrogate :: "jschar \<Rightarrow> bool" where
  "isLowSurrogate c = (0xDC00 \<le> c \<and> c \<le> 0xDFFF)"

fun codePoints :: "jsstring \<Rightarrow> nat" where
  "codePoints [] = 0"
| "codePoints [c] = 1"
| "codePoints (c # d # cs) =
     (if isHighSurrogate c \<and> isLowSurrogate d then Suc (codePoints cs)
      else Suc (codePoints (d # cs)))"

section \<open>The delimiter system\<close>

record delimiter_set =
  d_open :: jsstring
  d_close :: jsstring
  d_mid :: jsstring

definition DELIMITER_SETS :: "delimiter_set list" where
  "DELIMITER_SETS =
    [\<lparr>d_open = [0x0F12], d_close = [0x0F12], d_mid = [0x0FC7]\<rparr>,
     \<lparr>d_open = [0xA9C1], d_close = [0xA9C2], d_mid = [0x0FD4]\<rparr>,
     \<lparr>d_open = [0x1392], d_close = [0x1392], d_mid = [0x1393]\<rparr>,
     \<lparr>d_open = [0xA188], d_close = [0xA188], d_mid = [0xA2B0]\<rparr>,
     \<lparr>d_open = [0xAA5C], d_close = [0xAA5C], d_mid = [0xAA5F]\<rparr>,
     \<lparr>d_open = [0xA4F8], d_close = [0xA4F8], d_mid = [0xA4F9]\<rparr>]"

definition SUFFIX_POOL :: "jsstring list" where
  "SUFFIX_POOL =
    [[0x9F98], [0x9750], [0x9F49], [0x9EA4], [0x7228], [0x9A6B], [0x9C7B], [0x7FB4],
     [0x7287], [0x9A89], [0x98DD], [0x53B5], [0x9747], [0x98CD], [0x99AB], [0x7065],
     [0x53BD], [0x53D2], [0x53D5], [0x8294]]"

record markers =
  TC_START :: jsstring
  TC_END :: jsstring
  NAME_START :: jsstring
  NAME_END :: jsstring
  ARGS_START :: jsstring
  ARGS_END :: jsstring
  RESULT_START :: jsstring
  RESULT_END :: jsstring

text \<open>
  \<open>generateMarkers\<close> draws three random indices,
  \<open>Math.floor(Math.random() * DELIMITER_SETS.length)\<close> and twice
  \<open>Math.floor(Math.random() * SUFFIX_POOL.length)\<close>. The draws are the parameters
  \<open>r0\<close>, \<open>r1\<close>, \<open>r2\<close>; \<open>Math.random()\<close> lies in \<open>[0, 1)\<close>, so each index is below
  the length of its table.
\<close>

definition generateMarkers :: "nat \<Rightarrow> nat \<Rightarrow> nat \<Rightarrow> markers" where
  "generateMarkers r0 r1 r2 =
    (let set = DELIMITER_SETS ! r0;
         suffix1 = SUFFIX_POOL ! r1;
         suffix2 = SUFFIX_POOL ! r2
     in \<lparr>TC_START = d_open set @ suffix1 @ [0x1405],
         TC_END = [0x140A] @ suffix1 @ d_close set,
         NAME_START = d_mid set @ [0x25B8],
         NAME_END = [0x25C2] @ d_mid set,
         ARGS_START = d_mid set @ [0x25B9],
         ARGS_END = [0x25C3] @ d_mid set,
         RESULT_START = d_open set @ suffix2 @ [0x27EB],
         RESULT_END = [0x27EA] @ suffix2 @ d_close set\<rparr>)"

text \<open>The eight markers, in the order of the marker record.\<close>

definition markerList :: "markers \<Rightarrow> jsstring list" where
  "markerList m = [TC_START m, TC_END m, NAME_START m, NAME_END m,
                   ARGS_START m, ARGS_END m, RESULT_START m, RESULT_END m]"

fun prefixFree :: "jsstring list \<Rightarrow> bool" where
  "prefixFree [] = True"
| "prefixFree (x # xs) =
     (list_all (\<lambda>y. \<not> prefix x y \<and> \<not> prefix y x) xs \<and> prefixFree xs)"

definition isAscii :: "jschar \<Rightarrow> bool" where
  "isAscii c = (c < 0x80)"

text \<open>The three properties of a marker set.\<close>

definition markersOk :: "markers \<Rightarrow> bool" where
  "markersOk m = (prefixFree (markerList m)
     \<and> list_all (\<lambda>s. list_all (\<lambda>c. \<not> isAscii c) s) (markerList m)
     \<and> list_all (\<lambda>s. 2 \<le> codePoints s) (markerList m))"

section \<open>Messages and requests\<close>

text \<open>
  A \<open>content\<close> field of a JSON body. A value that is neither absent, null nor a string
  (a number, a boolean, an array of parts, an object) is represented by the three
  observations the code makes of it: its truthiness (\<open>v || ''\<close>), its string conversion
  (\<open>v + '...'\<close>) and its \<open>JSON.stringify\<close> rendering.
\<close>

datatype content =
    Undefined
  | Null
  | Str jsstring
  | Other (truthy: bool) (asString: jsstring) (asJSON: jsstring)

text \<open>\<open>c || ''\<close> followed by string concatenation.\<close>

fun orEmpty :: "content \<Rightarrow> jsstring" where
  "orEmpty Undefined = []"
| "orEmpty Null = []"
| "orEmpty (Str s) = s"
| "orEmpty (Other t s j) = (if t then s else [])"

text \<open>\<open>c + '...'\<close>: the string conversion of a content.\<close>

fun toString :: "content \<Rightarrow> jsstring" where
  "toString Undefined = str ''undefined''"
| "toString Null = str ''null''"
| "toString (Str s) = s"
| "toString (Other t s j) = s"

text \<open>
  A tool call \<open>{id, type, function: {name, arguments}}\<close>; the two fields of
  \<open>function\<close> are \<open>function_name\<close> and \<open>function_arguments\<close>.
\<close>

record tool_call =
  call_id :: jsstring
  call_type :: jsstring
  function_name :: jsstring
  function_arguments :: jsstring

record message =
  role :: jsstring
  content :: content
  tool_calls :: "tool_call list option"
  name :: "jsstring option"
  tool_call_id :: "jsstring option"

text \<open>
  A tool specification \<open>{function: {name, description, parameters}}\<close>; \<open>parameters\<close>
  holds the text \<open>JSON.stringify\<close> gives for the schema.
\<close>

record tool =
  tool_name :: jsstring
  description :: "jsstring option"
  parameters :: jsstring

text \<open>
  A chat request. \<open>tool_choice\<close> and the fields the proxy never reads
  (\<open>other_fields\<close>: model, temperature, ...) are kept as JSON text.
\<close>

record request =
  messages :: "message list"
  tools :: "tool list option"
  tool_choice :: "jsstring option"
  stream :: "bool option"
  other_fields :: "(jsstring \<times> jsstring) list"

definition nl :: jsstring where
  "nl = [0x0A]"

fun join :: "jsstring \<Rightarrow> jsstring list \<Rightarrow> jsstring" where
  "join sep [] = []"
| "join sep [x] = x"
| "join sep (x # y # ys) = x @ sep @ join sep (y # ys)"

text \<open>\<open>a || b\<close> on optional strings: the empty string is falsy.\<close>

fun truthyStr :: "jsstring option \<Rightarrow> bool" where
  "truthyStr None = False"
| "truthyStr (Some s) = (s \<noteq> [])"

section \<open>The system prompt\<close>

definition describeTool :: "tool \<Rightarrow> jsstring" where
  "describeTool t = str ''- **'' @ tool_name t @ str ''**: ''
     @ (if truthyStr (description t) then the (description t) else str ''No description'')
     @ nl @ str ''  Parameters: '' @ parameters t"

definition exampleBlock :: "markers \<Rightarrow> jsstring \<Rightarrow> jsstring \<Rightarrow> jsstring" where
  "exampleBlock m fname args =
     TC_START m @ nl @ NAME_START m @ fname @ NAME_END m @ nl
     @ ARGS_START m @ args @ ARGS_END m @ nl @ TC_END m @ nl"

definition getSystemPrompt :: "markers \<Rightarrow> tool list \<Rightarrow> jsstring" where
  "getSystemPrompt m ts =
     nl @ str ''## Tool Calling (AnyToolCall Protocol)'' @ nl @ nl
     @ str ''You have access to the following tools:'' @ nl
     @ join nl (map describeTool ts) @ nl @ nl
     @ str ''### How to call tools'' @ nl @ nl
     @ str ''When you need to call a tool, use this EXACT format at the END of your response:''
     @ nl @ nl
     @ exampleBlock m (str ''function_name'')
         ([0x7B, 0x22] @ str ''param'' @ [0x22, 0x3A, 0x20, 0x22] @ str ''value'' @ [0x22, 0x7D])
     @ nl
     @ str ''### Example'' @ nl @ nl
     @ str ''I'' @ [0x27] @ str ''ll search for that information:'' @ nl @ nl
     @ exampleBlock m (str ''web_search'')
         ([0x7B, 0x22] @ str ''query'' @ [0x22, 0x3A, 0x20, 0x22] @ str ''example''
          @ [0x22, 0x2C, 0x20, 0x22] @ str ''limit'' @ [0x22, 0x3A, 0x20] @ str ''5'' @ [0x7D])
     @ nl
     @ str ''### Rules'' @ nl @ nl
     @ str ''1. Tool calls MUST be at the END of your response'' @ nl
     @ str ''2. Copy the delimiters EXACTLY as shown above'' @ nl
     @ str ''3. Arguments must be valid JSON'' @ nl
     @ str ''4. One tool per block'' @ nl @ nl
     @ str ''### Tool Results'' @ nl @ nl
     @ str ''Results appear in '' @ RESULT_START m @ str ''...'' @ RESULT_END m
     @ str '' blocks.'' @ nl"

section \<open>The request transcoder\<close>

text \<open>Merging adjacent messages of the same role: the loop over \<open>messages[1..]\<close>.\<close>

fun mergeLoop :: "message list \<Rightarrow> message \<Rightarrow> message list \<Rightarrow> message list" where
  "mergeLoop merged current [] = merged @ [current]"
| "mergeLoop merged current (msg # rest) =
     (if role msg = role current
      then mergeLoop merged
             (current\<lparr>content := Str (orEmpty (content current) @ nl @ nl
                                        @ orEmpty (content msg))\<rparr>) rest
      else mergeLoop (merged @ [current]) msg rest)"

definition mergeAdjacentMessages :: "message list \<Rightarrow> message list" where
  "mergeAdjacentMessages msgs =
     (case msgs of [] \<Rightarrow> [] | m0 # rest \<Rightarrow> mergeLoop [] m0 rest)"

text \<open>The text appended to an assistant message for one tool call (tools declared).\<close>

definition encodeToolCall :: "markers \<Rightarrow> tool_call \<Rightarrow> jsstring" where
  "encodeToolCall m tc =
     nl @ TC_START m @ nl @ NAME_START m @ function_name tc @ NAME_END m @ nl
     @ ARGS_START m @ function_arguments tc @ ARGS_END m @ nl @ TC_END m"

text \<open>\<open>msg.tool_calls?.length\<close> is truthy.\<close>

fun hasToolCalls :: "message \<Rightarrow> bool" where
  "hasToolCalls msg = (case tool_calls msg of None \<Rightarrow> False | Some tcs \<Rightarrow> tcs \<noteq> [])"

text \<open>\<open>msg.name || msg.tool_call_id || 'unknown'\<close>.\<close>

definition toolResultName :: "message \<Rightarrow> jsstring" where
  "toolResultName msg =
     (if truthyStr (name msg) then the (name msg)
      else if truthyStr (tool_call_id msg) then the (tool_call_id msg)
      else str ''unknown'')"

text \<open>
  \<open>typeof msg.content === 'string' ? msg.content : JSON.stringify(msg.content)\<close>, as
  the template literal prints it (\<open>JSON.stringify(undefined)\<close> is \<open>undefined\<close>).
\<close>

fun toolResultText :: "content \<Rightarrow> jsstring" where
  "toolResultText (Str s) = s"
| "toolResultText Null = str ''null''"
| "toolResultText Undefined = str ''undefined''"
| "toolResultText (Other t s j) = j"

text \<open>The body of the loop over \<open>request.messages\<close>: the message pushed for \<open>msg\<close>.\<close>

definition rewriteMessage :: "markers \<Rightarrow> bool \<Rightarrow> jsstring \<Rightarrow> message \<Rightarrow> message" where
  "rewriteMessage m hasTools toolSystemPrompt msg =
     (if role msg = str ''system'' then
        \<lparr>role = str ''system'',
         content = Str (toString (content msg)
           @ (if toolSystemPrompt \<noteq> [] then nl @ nl @ toolSystemPrompt else [])),
         tool_calls = None, name = None, tool_call_id = None\<rparr>
      else if role msg = str ''assistant'' \<and> hasToolCalls msg then
        \<lparr>role = str ''assistant'',
         content = Str (orEmpty (content msg)
           @ (if hasTools
              then concat (map (encodeToolCall m) (the (tool_calls msg)))
              else nl @ nl @ str ''[Called tools: ''
                   @ join (str '', '') (map function_name (the (tool_calls msg)))
                   @ str '']'')),
         tool_calls = None, name = None, tool_call_id = None\<rparr>
      else if role msg = str ''tool'' then
        \<lparr>role = str ''user'',
         content = Str (if hasTools
           then RESULT_START m @ str ''['' @ toolResultName msg @ str '']'' @ nl
                @ toolResultText (content msg) @ RESULT_END m
           else str ''[Result from '' @ toolResultName msg @ str '']:'' @ nl
                @ toolResultText (content msg)),
         tool_calls = None, name = None, tool_call_id = None\<rparr>
      else msg)"

definition transformRequest :: "markers \<Rightarrow> request \<Rightarrow> bool \<Rightarrow> request" where
  "transformRequest m req hasTools =
     (let ts = (case tools req of None \<Rightarrow> [] | Some l \<Rightarrow> l);
          toolSystemPrompt = (if hasTools \<and> ts \<noteq> [] then getSystemPrompt m ts else []);
          hasSystem = list_ex (\<lambda>msg. role msg = str ''system'') (messages req);
          msgs = map (rewriteMessage m hasTools toolSystemPrompt) (messages req);
          msgs' = (if \<not> hasSystem \<and> toolSystemPrompt \<noteq> []
                   then \<lparr>role = str ''system'', content = Str toolSystemPrompt,
                         tool_calls = None, name = None, tool_call_id = None\<rparr> # msgs
                   else msgs)
      in req\<lparr>messages := mergeAdjacentMessages msgs', tools := None, tool_choice := None\<rparr>)"

text \<open>No two consecutive messages share a role.\<close>

fun alternating :: "message list \<Rightarrow> bool" where
  "alternating [] = True"
| "alternating [x] = True"
| "alternating (x # y # ys) = (role x \<noteq> role y \<and> alternating (y # ys))"

section \<open>JSON texts\<close>

text \<open>
  \<open>JSON.parse(text)\<close> throws unless \<open>text\<close> is a JSON text (ECMA-404). The parser
  only needs to know whether it throws; \<open>JSON_valid\<close> recognises JSON texts with a
  pushdown automaton that reads one code unit at a time: the state says what may come next,
  the stack holds the enclosing arrays and objects.
\<close>

datatype container = Arr | Obj

datatype jstate =
    Value
  | ValueOrEnd
  | KeyOrEnd
  | Key
  | Colon
  | After
  | InStr bool
  | Escape bool
  | Hex bool nat
  | Literal jsstring
  | Minus
  | Zero
  | IntDigits
  | Dot
  | Frac
  | Exp
  | ExpSign
  | ExpDigits
  | Reject

definition isJsonWs :: "jschar \<Rightarrow> bool" where
  "isJsonWs c = (c = 0x20 \<or> c = 0x09 \<or> c = 0x0A \<or> c = 0x0D)"

definition isDigit :: "jschar \<Rightarrow> bool" where
  "isDigit c = (0x30 \<le> c \<and> c \<le> 0x39)"

definition isHexDigit :: "jschar \<Rightarrow> bool" where
  "isHexDigit c = (isDigit c \<or> (0x41 \<le> c \<and> c \<le> 0x46) \<or> (0x61 \<le> c \<and> c \<le> 0x66))"

text \<open>A value has just ended and \<open>c\<close> follows it.\<close>

definition afterValue :: "container list \<Rightarrow> jschar \<Rightarrow> jstate \<times> container list" where
  "afterValue st c =
     (if isJsonWs c then (After, st)
      else if c = 0x2C then
        (case st of [] \<Rightarrow> (Reject, st) | Arr # _ \<Rightarrow> (Value, st) | Obj # _ \<Rightarrow> (Key, st))
      else if c = 0x5D then
        (case st of Arr # st' \<Rightarrow> (After, st') | _ \<Rightarrow> (Reject, st))
      else if c = 0x7D then
        (case st of Obj # st' \<Rightarrow> (After, st') | _ \<Rightarrow> (Reject, st))
      else (Reject, st))"

text \<open>A value is expected and \<open>c\<close> is its first code unit.\<close>

definition startValue :: "container list \<Rightarrow> jschar \<Rightarrow> jstate \<times> container list" where
  "startValue st c =
     (if c = 0x7B then (KeyOrEnd, Obj # st)
      else if c = 0x5B then (ValueOrEnd, Arr # st)
      else if c = 0x22 then (InStr False, st)
      else if c = 0x2D then (Minus, st)
      else if c = 0x30 then (Zero, st)
      else if isDigit c then (IntDigits, st)
      else if c = 0x74 then (Literal (str ''rue''), st)
      else if c = 0x66 then (Literal (str ''alse''), st)
      else if c = 0x6E then (Literal (str ''ull''), st)
      else (Reject, st))"

fun jsonStep :: "jstate \<times> container list \<Rightarrow> jschar \<Rightarrow> jstate \<times> container list" where
  "jsonStep (Value, st) c = (if isJsonWs c then (Value, st) else startValue st c)"
| "jsonStep (ValueOrEnd, st) c =
     (if isJsonWs c then (ValueOrEnd, st)
      else if c = 0x5D then (After, tl st)
      else startValue st c)"
| "jsonStep (KeyOrEnd, st) c =
     (if isJsonWs c then (KeyOrEnd, st)
      else if c = 0x22 then (InStr True, st)
      else if c = 0x7D then (After, tl st)
      else (Reject, st))"
| "jsonStep (Key, st) c =
     (if isJsonWs c then (Key, st)
      else if c = 0x22 then (InStr True, st)
      else (Reject, st))"
| "jsonStep (Colon, st) c =
     (if isJsonWs c then (Colon, st)
      else if c = 0x3A then (Value, st)
      else (Reject, st))"
| "jsonStep (After, st) c = afterValue st c"
| "jsonStep (InStr k, st) c =
     (if c = 0x22 then (if k then (Colon, st) else (After, st))
      else if c = 0x5C then (Escape k, st)
      else if c < 0x20 then (Reject, st)
      else (InStr k, st))"
| "jsonStep (Escape k, st) c =
     (if c = 0x22 \<or> c = 0x5C \<or> c = 0x2F \<or> c = 0x62 \<or> c = 0x66 \<or> c = 0x6E
         \<or> c = 0x72 \<or> c = 0x74 then (InStr k, st)
      else if c = 0x75 then (Hex k 4, st)
      else (Reject, st))"
| "jsonStep (Hex k n, st) c =
     (if isHexDigit c then (if n \<le> 1 then (InStr k, st) else (Hex k (n - 1), st))
      else (Reject, st))"
| "jsonStep (Literal [], st) c = (Reject, st)"
| "jsonStep (Literal (x # xs), st) c =
     (if c = x then (if xs = [] then (After, st) else (Literal xs, st)) else (Reject, st))"
| "jsonStep (Minus, st) c =
     (if c = 0x30 then (Zero, st) else if isDigit c then (IntDigits, st) else (Reject, st))"
| "jsonStep (Zero, st) c =
     (if c = 0x2E then (Dot, st)
      else if c = 0x65 \<or> c = 0x45 then (Exp, st)
      else afterValue st c)"
| "jsonStep (IntDigits, st) c =
     (if isDigit c then (IntDigits, st)
      else if c = 0x2E then (Dot, st)
      else if c = 0x65 \<or> c = 0x45 then (Exp, st)
      else afterValue st c)"
| "jsonStep (Dot, st) c = (if isDigit c then (Frac, st) else (Reject, st))"
| "jsonStep (Frac, st) c =
     (if isDigit c then (Frac, st)
      else if c = 0x65 \<or> c = 0x45 then (Exp, st)
      else afterValue st c)"
| "jsonStep (Exp, st) c =
     (if c = 0x2B \<or> c = 0x2D then (ExpSign, st)
      else if isDigit c then (ExpDigits, st)
      else (Reject, st))"
| "jsonStep (ExpSign, st) c = (if isDigit c then (ExpDigits, st) else (Reject, st))"
| "jsonStep (ExpDigits, st) c = (if isDigit c then (ExpDigits, st) else afterValue st c)"
| "jsonStep (Reject, st) c = (Reject, st)"

text \<open>The text has ended: a complete value has been read and nothing is open.\<close>

fun jsonAccepts :: "jstate \<times> container list \<Rightarrow> bool" where
  "jsonAccepts (q, st) =
     (st = [] \<and> (q = After \<or> q = Zero \<or> q = IntDigits \<or> q = Frac \<or> q = ExpDigits))"

definition JSON_valid :: "jsstring \<Rightarrow> bool" where
  "JSON_valid text = jsonAccepts (foldl jsonStep (Value, []) text)"

section \<open>Decimal numerals\<close>

text \<open>The digits a template literal prints for a non-negative integer.\<close>

definition digitChar :: "nat \<Rightarrow> jschar" where
  "digitChar d = of_nat (48 + d)"

fun showNat :: "nat \<Rightarrow> jsstring" where
  "showNat n = (if n < 10 then [digitChar n] else showNat (n div 10) @ [digitChar (n mod 10)])"

declare showNat.simps [simp del]

section \<open>The tool-call pattern\<close>

text \<open>
  \<open>ToolCallDelimiter.parse\<close> builds one regular expression: the markers, quoted by
  \<open>esc\<close> so that each matches as literal text, with \<open>\s*\<close> between the parts and two
  lazy groups \<open>([\s\S]*?)\<close>. A pattern is the list of its pieces.
\<close>

datatype piece =
    Lit jsstring
  | WsStar
  | Capture

definition toolCallRegex :: "markers \<Rightarrow> piece list" where
  "toolCallRegex m =
     [Lit (TC_START m), WsStar,
      Lit (NAME_START m), Capture, Lit (NAME_END m), WsStar,
      Lit (ARGS_START m), Capture, Lit (ARGS_END m), WsStar,
      Lit (TC_END m)]"

text \<open>
  Backtracking match of a pattern at the start of a text: the captured groups and the text
  after the match. \<open>\s*\<close> is greedy (the longest run of white space first, then shorter
  ones), a group is lazy (the shortest text first, then longer ones).
\<close>

fun matchHere :: "piece list \<Rightarrow> jsstring \<Rightarrow> (jsstring list \<times> jsstring) option" where
  "matchHere [] s = Some ([], s)"
| "matchHere (Lit l # ps) s =
     (if prefix l s then matchHere ps (drop (length l) s) else None)"
| "matchHere (WsStar # ps) [] = matchHere ps []"
| "matchHere (WsStar # ps) (c # cs) =
     (if isWs c
      then (case matchHere (WsStar # ps) cs of
              Some r \<Rightarrow> Some r
            | None \<Rightarrow> matchHere ps (c # cs))
      else matchHere ps (c # cs))"
| "matchHere (Capture # ps) s =
     (case matchHere ps s of
        Some (caps, rest) \<Rightarrow> Some ([] # caps, rest)
      | None \<Rightarrow>
         (case s of
            [] \<Rightarrow> None
          | c # cs \<Rightarrow>
             (case matchHere (Capture # ps) cs of
                Some (cap # caps, rest) \<Rightarrow> Some ((c # cap) # caps, rest)
              | _ \<Rightarrow> None)))"

text \<open>
  \<open>regex.exec\<close> from \<open>lastIndex\<close>: the leftmost position at which the pattern
  matches. The argument is the text from \<open>lastIndex\<close> on; the result is the text skipped
  before the match, the groups, and the text after the match (from the new
  \<open>lastIndex\<close> on).
\<close>

fun regexExec :: "piece list \<Rightarrow> jsstring \<Rightarrow> (jsstring \<times> jsstring list \<times> jsstring) option" where
  "regexExec re [] =
     (case matchHere re [] of
        Some (caps, rest) \<Rightarrow> Some ([], caps, rest)
      | None \<Rightarrow> None)"
| "regexExec re (c # cs) =
     (case matchHere re (c # cs) of
        Some (caps, rest) \<Rightarrow> Some ([], caps, rest)
      | None \<Rightarrow>
         (case regexExec re cs of
            Some (before, caps, rest) \<Rightarrow> Some (c # before, caps, rest)
          | None \<Rightarrow> None))"

text \<open>
  \<open>content.replace(regex, '')\<close> with the global flag: every match is deleted. After an
  empty match \<open>replace\<close> advances by one code unit.
\<close>

function replaceAll :: "piece list \<Rightarrow> jsstring \<Rightarrow> jsstring" where
  "replaceAll re s =
     (case regexExec re s of
        None \<Rightarrow> s
      | Some (before, caps, rest) \<Rightarrow>
          if length rest < length s then before @ replaceAll re rest
          else (case s of [] \<Rightarrow> [] | c # cs \<Rightarrow> c # replaceAll re cs))"
  by pat_completeness auto
termination
  by (relation "measure (\<lambda>(re, s). length s)") auto

text \<open>
  The \<open>while ((match = regex.exec(content)) !== null)\<close> loop. \<open>rest\<close> is the content
  from \<open>lastIndex\<close> on. An empty match leaves \<open>lastIndex\<close> where it is, and the loop
  never ends: that is the result \<open>None\<close>. \<open>now idx\<close> is what \<open>Date.now()\<close> returns
  when the tool call numbered \<open>idx\<close> is pushed.
\<close>

function parseLoop ::
  "markers \<Rightarrow> (nat \<Rightarrow> nat) \<Rightarrow> jsstring \<Rightarrow> nat \<Rightarrow> tool_call list \<Rightarrow> tool_call list option"
where
  "parseLoop m now rest idx toolCalls =
     (case regexExec (toolCallRegex m) rest of
        None \<Rightarrow> Some toolCalls
      | Some (before, caps, rest') \<Rightarrow>
          if length rest \<le> length rest' then None
          else if \<not> JSON_valid (trim (caps ! 1))
          then parseLoop m now rest' idx toolCalls
          else parseLoop m now rest' (Suc idx)
                 (toolCalls @
                  [\<lparr>call_id = str ''call_'' @ showNat (now idx) @ str ''_'' @ showNat idx,
                    call_type = str ''function'',
                    function_name = trim (caps ! 0),
                    function_arguments = trim (caps ! 1)\<rparr>]))"
  by pat_completeness auto
termination
  by (relation "measure (\<lambda>(m, now, rest, idx, toolCalls). length rest)") auto

definition parse :: "markers \<Rightarrow> (nat \<Rightarrow> nat) \<Rightarrow> jsstring \<Rightarrow> (tool_call list \<times> jsstring) option" where
  "parse m now contentText =
     (case parseLoop m now contentText 0 [] of
        None \<Rightarrow> None
      | Some toolCalls \<Rightarrow>
          Some (toolCalls, trim (replaceAll (toolCallRegex m) contentText)))"

section \<open>The streaming transcoder\<close>

text \<open>
  An event written to the client: \<open>data: {..., choices: [{index: 0, delta, finish_reason}]}\<close>
  with a text delta, a tool-call delta or an empty delta and a finish reason, or the line
  \<open>data: [DONE]\<close>. The fields \<open>id\<close>, \<open>object\<close> and \<open>created\<close> of a chunk (clock
  readings and a constant) are left out.
\<close>

datatype event =
    TextChunk jsstring
  | ToolCallChunk nat tool_call
  | FinishChunk jsstring
  | DoneLine

text \<open>
  What \<open>JSON.parse(payload)\<close> and \<open>parsed.choices?.[0]?.delta?.content\<close> give for the
  payload of a \<open>data:\<close> line: \<open>JSON.parse\<close> throws (\<open>Malformed\<close>; the \<open>catch\<close>
  returns); the payload is the JSON text \<open>null\<close>, and \<open>parsed.choices\<close> throws a
  TypeError that nothing in \<open>processLine\<close> catches (\<open>Throws\<close>); the content is
  undefined or null (\<open>Absent\<close>); or there is a content, a string (a content that is no
  string acts in the concatenations as its string conversion). The decoder is a parameter
  of the transcoder.
\<close>

datatype delta =
    Malformed
  | Throws
  | Absent
  | Content jsstring

record stream_state =
  lineBuffer :: jsstring
  contentBuffer :: jsstring
  isBuffering :: bool
  pendingText :: jsstring
  streamEnded :: bool

definition initialState :: stream_state where
  "initialState = \<lparr>lineBuffer = [], contentBuffer = [], isBuffering = False,
     pendingText = [], streamEnded = False\<rparr>"

text \<open>\<open>textChunk\<close> returns null for an empty text, and the caller pushes nothing.\<close>

definition textChunk :: "jsstring \<Rightarrow> event list" where
  "textChunk t = (if t = [] then [] else [TextChunk t])"

definition toolCallChunks :: "tool_call list \<Rightarrow> event list" where
  "toolCallChunks toolCalls = map (\<lambda>(i, tc). ToolCallChunk i tc) (enumerate 0 toolCalls)"

definition finishChunk :: "jsstring \<Rightarrow> event list" where
  "finishChunk reason = [FinishChunk reason]"

text \<open>\<open>s.indexOf(pat)\<close>; \<open>None\<close> is the result -1.\<close>

fun indexOf :: "jsstring \<Rightarrow> jsstring \<Rightarrow> nat option" where
  "indexOf [] pat = (if pat = [] then Some 0 else None)"
| "indexOf (c # cs) pat =
     (if prefix pat (c # cs) then Some 0
      else (case indexOf cs pat of None \<Rightarrow> None | Some i \<Rightarrow> Some (Suc i)))"

definition includesStr :: "jsstring \<Rightarrow> jsstring \<Rightarrow> bool" where
  "includesStr s pat = (indexOf s pat \<noteq> None)"

text \<open>
  \<open>combined.includes(startMarker[0])\<close>: indexing an empty string gives undefined, which
  \<open>includes\<close> converts to the text \<open>undefined\<close>.
\<close>

definition includesFirst :: "jsstring \<Rightarrow> jsstring \<Rightarrow> bool" where
  "includesFirst combined startMarker =
     (case startMarker of
        [] \<Rightarrow> includesStr combined (str ''undefined'')
      | c # _ \<Rightarrow> includesStr combined [c])"

text \<open>
  The end of the stream, on \<open>data: [DONE]\<close> and in \<open>flush\<close>: the events for the buffered
  tool-call block. \<open>None\<close>: the parser does not return.
\<close>

definition finishBuffered :: "markers \<Rightarrow> (nat \<Rightarrow> nat) \<Rightarrow> jsstring \<Rightarrow> event list option" where
  "finishBuffered m now buffer =
     (if buffer \<noteq> [] then
        (case parse m now buffer of
           None \<Rightarrow> None
         | Some (toolCalls, cleanContent) \<Rightarrow>
             Some (textChunk cleanContent
                   @ (if toolCalls \<noteq> []
                      then toolCallChunks toolCalls @ finishChunk (str ''tool_calls'')
                      else finishChunk (str ''stop''))))
      else Some (finishChunk (str ''stop'')))"

text \<open>
  \<open>processLine\<close>: the new state and the events pushed. \<open>None\<close>: the call does not
  return; the parser loops for ever, or the TypeError of a \<open>null\<close> payload leaves
  \<open>processLine\<close> and the transformer, and no later line is processed. The functions
  that call \<open>processLine\<close> pass \<open>None\<close> on.
\<close>

definition processLine ::
  "markers \<Rightarrow> (nat \<Rightarrow> nat) \<Rightarrow> (jsstring \<Rightarrow> delta) \<Rightarrow> stream_state \<Rightarrow> jsstring
     \<Rightarrow> (stream_state \<times> event list) option"
where
  "processLine m now decode st line =
     (let trimmed = trim line in
      if trimmed = [] then Some (st, [])
      else if trimmed = str ''data: [DONE]'' then
        (case finishBuffered m now (contentBuffer st) of
           None \<Rightarrow> None
         | Some evs \<Rightarrow>
             Some (st\<lparr>streamEnded := True, pendingText := [], contentBuffer := []\<rparr>,
                   textChunk (pendingText st) @ evs @ [DoneLine]))
      else if \<not> prefix (str ''data: '') trimmed then Some (st, [])
      else
        (case decode (drop 6 trimmed) of
           Malformed \<Rightarrow> Some (st, [])
         | Throws \<Rightarrow> None
         | Absent \<Rightarrow> Some (st, [])
         | Content c \<Rightarrow>
             if isBuffering st then Some (st\<lparr>contentBuffer := contentBuffer st @ c\<rparr>, [])
             else
               (let combined = pendingText st @ c in
                case indexOf combined (TC_START m) of
                  Some startIdx \<Rightarrow>
                    Some (st\<lparr>contentBuffer := drop startIdx combined, pendingText := [],
                             isBuffering := True\<rparr>,
                          textChunk (take startIdx combined))
                | None \<Rightarrow>
                    if includesFirst combined (TC_START m)
                    then Some (st\<lparr>pendingText := combined\<rparr>, [])
                    else Some (st\<lparr>pendingText := []\<rparr>, textChunk combined))))"

text \<open>\<open>for (const line of lines) processLine(line, push)\<close>.\<close>

fun processLines ::
  "markers \<Rightarrow> (nat \<Rightarrow> nat) \<Rightarrow> (jsstring \<Rightarrow> delta) \<Rightarrow> stream_state \<Rightarrow> jsstring list
     \<Rightarrow> (stream_state \<times> event list) option"
where
  "processLines m now decode st [] = Some (st, [])"
| "processLines m now decode st (line # rest) =
     (case processLine m now decode st line of
        None \<Rightarrow> None
      | Some (st', evs) \<Rightarrow>
          (case processLines m now decode st' rest of
             None \<Rightarrow> None
           | Some (st'', evs') \<Rightarrow> Some (st'', evs @ evs')))"

text \<open>\<open>s.split('\n')\<close>: the pieces between the separators.\<close>

fun split :: "jschar \<Rightarrow> jsstring \<Rightarrow> jsstring list" where
  "split sep [] = [[]]"
| "split sep (c # cs) =
     (if c = sep then [] # split sep cs
      else (case split sep cs of
              [] \<Rightarrow> [[c]]
            | l # ls \<Rightarrow> (c # l) # ls))"

text \<open>\<open>transform(chunk)\<close>: the chunk joins the line buffer, the complete lines are
  processed, the last piece stays in the buffer.\<close>

definition transform ::
  "markers \<Rightarrow> (nat \<Rightarrow> nat) \<Rightarrow> (jsstring \<Rightarrow> delta) \<Rightarrow> stream_state \<Rightarrow> jsstring
     \<Rightarrow> (stream_state \<times> event list) option"
where
  "transform m now decode st chunk =
     (let lines = split 0x0A (lineBuffer st @ chunk) in
      processLines m now decode (st\<lparr>lineBuffer := last lines\<rparr>) (butlast lines))"

definition flush ::
  "markers \<Rightarrow> (nat \<Rightarrow> nat) \<Rightarrow> (jsstring \<Rightarrow> delta) \<Rightarrow> stream_state
     \<Rightarrow> (stream_state \<times> event list) option"
where
  "flush m now decode st =
     (if streamEnded st then Some (st, [])
      else
        (case (if lineBuffer st \<noteq> []
               then processLine m now decode (st\<lparr>lineBuffer := []\<rparr>) (lineBuffer st)
               else Some (st, [])) of
           None \<Rightarrow> None
         | Some (st1, evs1) \<Rightarrow>
             (case finishBuffered m now (contentBuffer st1) of
                None \<Rightarrow> None
              | Some evs2 \<Rightarrow>
                  Some (st1\<lparr>pendingText := []\<rparr>,
                        evs1 @ textChunk (pendingText st1) @ evs2 @ [DoneLine]))))"

text \<open>The transformer fed with the chunks of the upstream body, then ended.\<close>

fun transformAll ::
  "markers \<Rightarrow> (nat \<Rightarrow> nat) \<Rightarrow> (jsstring \<Rightarrow> delta) \<Rightarrow> stream_state \<Rightarrow> jsstring list
     \<Rightarrow> (stream_state \<times> event list) option"
where
  "transformAll m now decode st [] = Some (st, [])"
| "transformAll m now decode st (chunk # rest) =
     (case transform m now decode st chunk of
        None \<Rightarrow> None
      | Some (st', evs) \<Rightarrow>
          (case transformAll m now decode st' rest of
             None \<Rightarrow> None
           | Some (st'', evs') \<Rightarrow> Some (st'', evs @ evs')))"

definition runTransformer ::
  "markers \<Rightarrow> (nat \<Rightarrow> nat) \<Rightarrow> (jsstring \<Rightarrow> delta) \<Rightarrow> jsstring list \<Rightarrow> event list option"
where
  "runTransformer m now decode chunks =
     (case transformAll m now decode initialState chunks of
        None \<Rightarrow> None
      | Some (st, evs) \<Rightarrow>
          (case flush m now decode st of
             None \<Rightarrow> None
           | Some (st', evs') \<Rightarrow> Some (evs @ evs')))"





text \<open>A line at which \<open>processLine\<close> throws: a \<open>data:\<close> line with the payload \<open>null\<close>.\<close>

definition throwsOn :: "(jsstring \<Rightarrow> delta) \<Rightarrow> jsstring \<Rightarrow> bool" where
  "throwsOn decode line =
     (let trimmed = trim line in
      trimmed \<noteq> [] \<and> trimmed \<noteq> str ''data: [DONE]'' \<and> prefix (str ''data: '') trimmed
      \<and> decode (drop 6 trimmed) = Throws)"


section \<open>The non-streaming response transcoder\<close>

record choice =
  message :: "message option"
  finish_reason :: "jsstring option"
  choice_fields :: "(jsstring \<times> jsstring) list"

record response =
  choices :: "choice list option"
  response_fields :: "(jsstring \<times> jsstring) list"



section \<open>Upstream validation\<close>

text \<open>
  \<open>extractUpstream\<close>: the request URL matches \<open>^\/(https?:\/\/.+)$\<close>; \<open>.\<close> matches
  every code unit but a line terminator.
\<close>

definition isLineTerminator :: "jschar \<Rightarrow> bool" where
  "isLineTerminator c = (c = 0x0A \<or> c = 0x0D \<or> c = 0x2028 \<or> c = 0x2029)"

definition extractUpstream :: "jsstring \<Rightarrow> jsstring option" where
  "extractUpstream reqUrl =
     (case reqUrl of
        [] \<Rightarrow> None
      | c # u \<Rightarrow>
          if c = 0x2F \<and>
             ((prefix (str ''http://'') u \<and> drop 7 u \<noteq> []
               \<and> list_all (\<lambda>x. \<not> isLineTerminator x) (drop 7 u))
              \<or> (prefix (str ''https://'') u \<and> drop 8 u \<noteq> []
                  \<and> list_all (\<lambda>x. \<not> isLineTerminator x) (drop 8 u)))
          then Some u else None)"

text \<open>
  \<open>Number(part)\<close> for a part of a numeric address, as \<open>dns.lookup\<close> returns it: the
  value of a string of decimal digits (0 for the empty string); every other part met in an
  address (one with a colon of an IPv6 address) is NaN, here \<open>None\<close>.
\<close>

definition Number :: "jsstring \<Rightarrow> nat option" where
  "Number s =
     (if list_all isDigit s then Some (foldl (\<lambda>acc c. 10 * acc + (unat c - 48)) 0 s)
      else None)"

text \<open>
  The two fields of \<open>new url.URL(upstreamUrl)\<close> the check reads. The URL parser and the
  resolver \<open>dns.lookup\<close> are parameters: each returns \<open>None\<close> when it throws.
\<close>

record parsed_url =
  protocol :: jsstring
  hostname :: jsstring

datatype validation =
    Valid
  | Invalid jsstring

definition privateAddress :: "jsstring \<Rightarrow> jsstring option" where
  "privateAddress address =
     (let parts = map Number (split 0x2E address) in
      if length parts = 4 then
        if parts ! 0 = Some 10 then Some (str ''Private IP range (10.x.x.x) denied'')
        else if parts ! 0 = Some 172 \<and>
                (case parts ! 1 of Some b \<Rightarrow> 16 \<le> b \<and> b \<le> 31 | None \<Rightarrow> False)
        then Some (str ''Private IP range (172.16-31.x.x) denied'')
        else if parts ! 0 = Some 192 \<and> parts ! 1 = Some 168
        then Some (str ''Private IP range (192.168.x.x) denied'')
        else if parts ! 0 = Some 127 then Some (str ''Loopback IP denied'')
        else None
      else None)"

definition validateUpstream ::
  "bool \<Rightarrow> (jsstring \<Rightarrow> parsed_url option) \<Rightarrow> (jsstring \<Rightarrow> jsstring option)
     \<Rightarrow> jsstring option \<Rightarrow> validation"
where
  "validateUpstream ALLOW_LOCAL_NET parseURL dnsLookup upstreamUrl =
     (if \<not> truthyStr upstreamUrl then Invalid (str ''Missing upstream URL'')
      else
        (case parseURL (the upstreamUrl) of
           None \<Rightarrow> Invalid (str ''Invalid URL format'')
         | Some parsed \<Rightarrow>
             if protocol parsed \<noteq> str ''http:'' \<and> protocol parsed \<noteq> str ''https:''
             then Invalid (str ''Invalid protocol (http/https only)'')
             else if ALLOW_LOCAL_NET then Valid
             else if hostname parsed \<in> set [str ''localhost'', str ''127.0.0.1'',
                                              str ''::1'', str ''0.0.0.0'']
             then Invalid
               (str ''Localhost access denied (Set ALLOW_LOCAL_NET=true to enable)'')
             else
               (case dnsLookup (hostname parsed) of
                  None \<Rightarrow> Valid
                | Some address \<Rightarrow>
                    (case privateAddress address of
                       Some err \<Rightarrow> Invalid err
                     | None \<Rightarrow> Valid))))"

text \<open>
  The first step of \<open>handleRequest\<close>: the request is answered with status 403 and the body
  \<open>{error: {message, type}}\<close>, or it goes on to the upstream, which is fetched only then.
\<close>

datatype admission =
    Denied nat jsstring jsstring
  | Forward jsstring

definition admitRequest ::
  "bool \<Rightarrow> (jsstring \<Rightarrow> parsed_url option) \<Rightarrow> (jsstring \<Rightarrow> jsstring option)
     \<Rightarrow> jsstring \<Rightarrow> admission"
where
  "admitRequest ALLOW_LOCAL_NET parseURL dnsLookup originalUrl =
     (let upstream = extractUpstream originalUrl in
      case validateUpstream ALLOW_LOCAL_NET parseURL dnsLookup upstream of
        Invalid err \<Rightarrow> Denied 403 (str ''Access denied: '' @ err) (str ''security_error'')
      | Valid \<Rightarrow> Forward (the upstream))"

text \<open>A dotted-decimal IPv4 address.\<close>

definition dotted :: "nat \<Rightarrow> nat \<Rightarrow> nat \<Rightarrow> nat \<Rightarrow> jsstring" where
  "dotted a b c d = showNat a @ [0x2E] @ showNat b @ [0x2E] @ showNat c @ [0x2E] @ showNat d"

section \<open>Predicates and example values of the statements\<close>

text \<open>The markers of the first delimiter triple with the first suffix glyph twice.\<close>

definition exampleMarkers :: markers where
  "exampleMarkers = generateMarkers 0 0 0"

definition userMsg :: "jsstring \<Rightarrow> message" where
  "userMsg s = \<lparr>role = str ''user'', content = Str s, tool_calls = None, name = None,
     tool_call_id = None\<rparr>"

definition toolMsg :: "content \<Rightarrow> jsstring option \<Rightarrow> jsstring option \<Rightarrow> message" where
  "toolMsg c n i = \<lparr>role = str ''tool'', content = c, tool_calls = None, name = n,
     tool_call_id = i\<rparr>"

definition plainRequest :: "message list \<Rightarrow> request" where
  "plainRequest msgs = \<lparr>messages = msgs, tools = None, tool_choice = None, stream = None,
     other_fields = []\<rparr>"

text \<open>A message that is no tool history: not of role tool, no assistant message with tool calls.\<close>

definition noToolHistory :: "message \<Rightarrow> bool" where
  "noToolHistory msg =
     (role msg \<noteq> str ''tool'' \<and> \<not> (role msg = str ''assistant'' \<and> hasToolCalls msg))"

text \<open>A system message holds a string content and no other field.\<close>

definition plainSystem :: "message \<Rightarrow> bool" where
  "plainSystem msg = (role msg \<noteq> str ''system'' \<or>
     ((case content msg of Str s \<Rightarrow> True | _ \<Rightarrow> False) \<and> tool_calls msg = None
      \<and> name msg = None \<and> tool_call_id msg = None))"

text \<open>A URL parser and a resolver for one request: the parts of
  \<open>http://127.0.0.1:8080/x\<close>, and a lookup that fails.\<close>

definition localUrl :: "jsstring \<Rightarrow> parsed_url option" where
  "localUrl u = Some \<lparr>protocol = str ''http:'', hostname = str ''127.0.0.1''\<rparr>"

definition noDns :: "jsstring \<Rightarrow> jsstring option" where
  "noDns h = None"

text \<open>The first two parts of an IPv4 address in 10/8, 172.16/12, 192.168/16 or 127/8.\<close>

definition isPrivate :: "nat \<Rightarrow> nat \<Rightarrow> bool" where
  "isPrivate a b = (a = 10 \<or> (a = 172 \<and> 16 \<le> b \<and> b \<le> 31) \<or> (a = 192 \<and> b = 168) \<or> a = 127)"

text \<open>
  A tool-call block: the markers around a name and an argument text, with runs of white
  space \<open>w1\<close>, \<open>w2\<close>, \<open>w3\<close> between the parts. The request transcoder writes a line
  feed for each.
\<close>

definition envelopeWs ::
  "markers \<Rightarrow> jsstring \<Rightarrow> jsstring \<Rightarrow> jsstring \<Rightarrow> jsstring \<Rightarrow> jsstring \<Rightarrow> jsstring"
where
  "envelopeWs m w1 fname w2 args w3 =
     TC_START m @ w1 @ NAME_START m @ fname @ NAME_END m @ w2
     @ ARGS_START m @ args @ ARGS_END m @ w3 @ TC_END m"

definition envelope :: "markers \<Rightarrow> jsstring \<Rightarrow> jsstring \<Rightarrow> jsstring" where
  "envelope m fname args = envelopeWs m nl fname nl args nl"

text \<open>The JSON text \<open>{"a":1,"b":2}\<close>.\<close>

definition argsAB :: jsstring where
  "argsAB = str ''{'' @ [0x22] @ str ''a'' @ [0x22] @ str '':1,'' @ [0x22] @ str ''b''
     @ [0x22] @ str '':2}''"


definition fixedClock :: "nat \<Rightarrow> nat" where
  "fixedClock idx = 1700000000000"

text \<open>
  What the proofs about the parser use of a marker set: a marker starts with a code unit
  that is no white space, and the first code unit of a closing marker and of \<open>TC_START\<close>
  does not occur again in it. Every generated marker set has these properties.
\<close>

definition selfFree :: "jsstring \<Rightarrow> bool" where
  "selfFree p = (case p of [] \<Rightarrow> False | c # cs \<Rightarrow> c \<notin> set cs)"

definition startsVisible :: "jsstring \<Rightarrow> bool" where
  "startsVisible p = (case p of [] \<Rightarrow> False | c # cs \<Rightarrow> \<not> isWs c)"

definition goodMarkers :: "markers \<Rightarrow> bool" where
  "goodMarkers m =
     (selfFree (TC_START m) \<and> selfFree (NAME_END m) \<and> selfFree (ARGS_END m)
      \<and> startsVisible (TC_START m) \<and> startsVisible (NAME_START m)
      \<and> startsVisible (ARGS_START m) \<and> startsVisible (TC_END m))"

text \<open>
  A tool call that survives the encoding and the parsing unchanged: its arguments are
  valid JSON, its name and arguments have no white space at either end and do not contain
  the marker that closes them.
\<close>

definition encodable :: "markers \<Rightarrow> tool_call \<Rightarrow> bool" where
  "encodable m tc =
     (JSON_valid (function_arguments tc)
      \<and> trim (function_name tc) = function_name tc
      \<and> trim (function_arguments tc) = function_arguments tc
      \<and> indexOf (function_name tc) (NAME_END m) = None
      \<and> indexOf (function_arguments tc) (ARGS_END m) = None)"

text \<open>The tool calls the parser builds from a list of calls, numbered from \<open>idx\<close>.\<close>

fun parsedCalls :: "(nat \<Rightarrow> nat) \<Rightarrow> nat \<Rightarrow> tool_call list \<Rightarrow> tool_call list" where
  "parsedCalls now idx [] = []"
| "parsedCalls now idx (tc # tcs) =
     \<lparr>call_id = str ''call_'' @ showNat (now idx) @ str ''_'' @ showNat idx,
      call_type = str ''function'',
      function_name = function_name tc,
      function_arguments = function_arguments tc\<rparr> # parsedCalls now (Suc idx) tcs"

definition exampleCall :: "jsstring \<Rightarrow> jsstring \<Rightarrow> tool_call" where
  "exampleCall fname args = \<lparr>call_id = str ''call_abc'', call_type = str ''function'',
     function_name = fname, function_arguments = args\<rparr>"







text \<open>
  A decoder for witnesses: it reads the payload \<open>null\<close> and the payloads of the one shape
  \<open>{"choices":[{"delta":{"content":"..."}}]}\<close> whose content text is written with no
  escape but \<open>\n\<close>, \<open>\"\<close> and \<open>\\\<close>, for which \<open>JSON.parse\<close> and the field access
  give the unescaped text; \<open>dataLine\<close> builds the line for a text.
\<close>

definition deltaPrefix :: jsstring where
  "deltaPrefix = str ''{'' @ [0x22] @ str ''choices'' @ [0x22] @ str '':[{'' @ [0x22]
     @ str ''delta'' @ [0x22] @ str '':{'' @ [0x22] @ str ''content'' @ [0x22] @ str '':''
     @ [0x22]"

definition deltaSuffix :: jsstring where
  "deltaSuffix = [0x22] @ str ''}}]}''"

fun escape :: "jsstring \<Rightarrow> jsstring" where
  "escape [] = []"
| "escape (c # cs) =
     (if c = 0x0A then [0x5C, 0x6E] @ escape cs
      else if c = 0x22 then [0x5C, 0x22] @ escape cs
      else if c = 0x5C then [0x5C, 0x5C] @ escape cs
      else c # escape cs)"

fun unescape :: "jsstring \<Rightarrow> jsstring option" where
  "unescape [] = Some []"
| "unescape [c] = (if c = 0x22 \<or> c = 0x5C \<or> c < 0x20 then None else Some [c])"
| "unescape (c # d # cs) =
     (if c = 0x5C then
        (if d = 0x6E then map_option ((#) 0x0A) (unescape cs)
         else if d = 0x22 \<or> d = 0x5C then map_option ((#) d) (unescape cs)
         else None)
      else if c = 0x22 \<or> c < 0x20 then None
      else map_option ((#) c) (unescape (d # cs)))"

definition decodeSimple :: "jsstring \<Rightarrow> delta" where
  "decodeSimple payload =
     (let rest = drop (length deltaPrefix) payload;
          middle = take (length rest - length deltaSuffix) rest
      in if payload = str ''null'' then Throws
         else if prefix deltaPrefix payload \<and> drop (length middle) rest = deltaSuffix
         then (case unescape middle of Some c \<Rightarrow> Content c | None \<Rightarrow> Malformed)
         else Malformed)"

definition dataLine :: "jsstring \<Rightarrow> jsstring" where
  "dataLine c = str ''data: '' @ deltaPrefix @ escape c @ deltaSuffix"

definition doneLine :: jsstring where
  "doneLine = str ''data: [DONE]''"


text \<open>Adding a code unit to the first piece of a split.\<close>

fun consHead :: "jschar \<Rightarrow> jsstring list \<Rightarrow> jsstring list" where
  "consHead c [] = [[c]]"
| "consHead c (l # ls) = (c # l) # ls"

text \<open>
  What \<open>new url.URL\<close> reports for \<open>http://[::1]:8080/x\<close>: the hostname of an IPv6
  host keeps its brackets. \<open>loopbackDns\<close> is a resolver that answers \<open>::1\<close>.
\<close>

definition ipv6Url :: "jsstring \<Rightarrow> parsed_url option" where
  "ipv6Url u = Some \<lparr>protocol = str ''http:'', hostname = str ''[::1]''\<rparr>"

definition loopbackDns :: "jsstring \<Rightarrow> jsstring option" where
  "loopbackDns h = Some (str ''::1'')"


fun contentText :: "content \<Rightarrow> jsstring" where
  "contentText (Str s) = s"
| "contentText _ = []"





section \<open>Properties of the marker set\<close>

lemma SUFFIX_POOL_shape:
  "list_all (\<lambda>s. \<exists>c. s = [c] \<and> \<not> isAscii c \<and> \<not> isHighSurrogate c) SUFFIX_POOL"
  by (simp add: SUFFIX_POOL_def isAscii_def isHighSurrogate_def)

lemma SUFFIX_POOL_nth:
  assumes "r < length SUFFIX_POOL"
  obtains c where "SUFFIX_POOL ! r = [c]" "\<not> isAscii c" "\<not> isHighSurrogate c"
proof -
  have "SUFFIX_POOL ! r \<in> set SUFFIX_POOL"
    using assms by (rule nth_mem)
  with SUFFIX_POOL_shape show thesis
    using that by (auto simp: list_all_iff)
qed

lemma DELIMITER_SETS_shape:
  "list_all (\<lambda>d. \<forall>c1 c2. \<not> isAscii c1 \<longrightarrow> \<not> isAscii c2 \<longrightarrow>
      \<not> isHighSurrogate c1 \<longrightarrow> \<not> isHighSurrogate c2 \<longrightarrow>
      markersOk \<lparr>TC_START = d_open d @ [c1] @ [0x1405],
         TC_END = [0x140A] @ [c1] @ d_close d,
         NAME_START = d_mid d @ [0x25B8],
         NAME_END = [0x25C2] @ d_mid d,
         ARGS_START = d_mid d @ [0x25B9],
         ARGS_END = [0x25C3] @ d_mid d,
         RESULT_START = d_open d @ [c2] @ [0x27EB],
         RESULT_END = [0x27EA] @ [c2] @ d_close d\<rparr>) DELIMITER_SETS"
  by (simp add: DELIMITER_SETS_def markersOk_def markerList_def isAscii_def
      isHighSurrogate_def isLowSurrogate_def)

text \<open>
  C9. For every random choice (any of the six delimiter triples, any two suffix glyphs of
  the pool of twenty, possibly equal), among the eight generated markers no marker is a
  prefix of another, no marker contains an ASCII code point, and every marker is at least
  two code points long.
\<close>

theorem generateMarkers_invariant:
  assumes "r0 < length DELIMITER_SETS"
    and "r1 < length SUFFIX_POOL"
    and "r2 < length SUFFIX_POOL"
  shows "prefixFree (markerList (generateMarkers r0 r1 r2))
    \<and> list_all (\<lambda>s. list_all (\<lambda>c. \<not> isAscii c) s) (markerList (generateMarkers r0 r1 r2))
    \<and> list_all (\<lambda>s. 2 \<le> codePoints s) (markerList (generateMarkers r0 r1 r2))"
proof -
  obtain c1 where c1: "SUFFIX_POOL ! r1 = [c1]" "\<not> isAscii c1" "\<not> isHighSurrogate c1"
    using assms(2) by (rule SUFFIX_POOL_nth)
  obtain c2 where c2: "SUFFIX_POOL ! r2 = [c2]" "\<not> isAscii c2" "\<not> isHighSurrogate c2"
    using assms(3) by (rule SUFFIX_POOL_nth)
  have "DELIMITER_SETS ! r0 \<in> set DELIMITER_SETS"
    using assms(1) by (rule nth_mem)
  with DELIMITER_SETS_shape c1 c2 have "markersOk (generateMarkers r0 r1 r2)"
    unfolding list_all_iff generateMarkers_def Let_def by fastforce
  then show ?thesis
    by (simp add: markersOk_def)
qed

theorem generateMarkers_invariant_witness:
  "(0::nat) < length DELIMITER_SETS \<and> (0::nat) < length SUFFIX_POOL
   \<and> (19::nat) < length SUFFIX_POOL
   \<and> prefixFree (markerList (generateMarkers 0 0 19))
   \<and> list_all (\<lambda>s. list_all (\<lambda>c. \<not> isAscii c) s) (markerList (generateMarkers 0 0 19))
   \<and> list_all (\<lambda>s. 2 \<le> codePoints s) (markerList (generateMarkers 0 0 19))"
proof -
  have h0: "(0::nat) < length DELIMITER_SETS" by (simp add: DELIMITER_SETS_def)
  have h1: "(0::nat) < length SUFFIX_POOL" by (simp add: SUFFIX_POOL_def)
  have h2: "(19::nat) < length SUFFIX_POOL" by (simp add: SUFFIX_POOL_def)
  show ?thesis
    using h0 h1 h2 generateMarkers_invariant [OF h0 h1 h2] by simp
qed

section \<open>Merging adjacent messages\<close>

lemma alternating_snoc:
  "alternating (xs @ [a]) \<Longrightarrow> role a \<noteq> role b \<Longrightarrow> alternating (xs @ [a, b])"
  by (induction xs rule: alternating.induct) auto

lemma alternating_replace_last:
  "alternating (xs @ [a]) \<Longrightarrow> role a' = role a \<Longrightarrow> alternating (xs @ [a'])"
  by (induction xs rule: alternating.induct) auto

lemma mergeLoop_alternating:
  "alternating (merged @ [current]) \<Longrightarrow> alternating (mergeLoop merged current rest)"
proof (induction rest arbitrary: merged current)
  case Nil
  then show ?case by simp
next
  case (Cons msg rest)
  show ?case
  proof (cases "role msg = role current")
    case True
    have "alternating (merged @ [current\<lparr>content := Str (orEmpty (content current) @ nl @ nl
                                        @ orEmpty (content msg))\<rparr>])"
      by (rule alternating_replace_last [OF Cons.prems]) simp
    then show ?thesis using True Cons.IH by simp
  next
    case False
    then have "alternating ((merged @ [current]) @ [msg])"
      using alternating_snoc [OF Cons.prems, of msg] by simp
    then show ?thesis using False Cons.IH by simp
  qed
qed

lemma mergeAdjacentMessages_alternating: "alternating (mergeAdjacentMessages msgs)"
  by (cases msgs) (simp_all add: mergeAdjacentMessages_def mergeLoop_alternating)

text \<open>
  C5. For every input message sequence and either value of the \<open>hasTools\<close> flag, the
  message list produced by the request transcoder contains no two consecutive messages
  with the same role.
\<close>

theorem transformRequest_alternating:
  "alternating (messages (transformRequest m req hasTools))"
  by (simp add: transformRequest_def Let_def mergeAdjacentMessages_alternating)

theorem transformRequest_alternating_witness:
  "alternating (messages (transformRequest exampleMarkers
      \<lparr>messages = [userMsg (str ''a''), userMsg (str ''b'')], tools = None,
       tool_choice = None, stream = None, other_fields = []\<rparr> False))
   \<and> messages (transformRequest exampleMarkers
      \<lparr>messages = [userMsg (str ''a''), userMsg (str ''b'')], tools = None,
       tool_choice = None, stream = None, other_fields = []\<rparr> False)
     = [userMsg (str ''a'' @ nl @ nl @ str ''b'')]"
  using transformRequest_alternating [of exampleMarkers
      "\<lparr>messages = [userMsg (str ''a''), userMsg (str ''b'')], tools = None,
       tool_choice = None, stream = None, other_fields = []\<rparr>" False]
  by (simp add: transformRequest_def mergeAdjacentMessages_def userMsg_def str_def rewriteMessage_def)

lemma mergeLoop_id:
  "alternating (current # rest) \<Longrightarrow> mergeLoop merged current rest = merged @ current # rest"
  by (induction rest arbitrary: merged current) auto

lemma mergeAdjacentMessages_id:
  "alternating msgs \<Longrightarrow> mergeAdjacentMessages msgs = msgs"
  by (cases msgs) (simp_all add: mergeAdjacentMessages_def mergeLoop_id)

section \<open>Rewriting a tool message\<close>

text \<open>
  A tool message whose \<open>name\<close> is present but empty: the name written is the
  \<open>tool_call_id\<close>, not the name field.
\<close>

theorem toolResultName_counterexample:
  "name (toolMsg (Str (str ''42'')) (Some []) (Some (str ''call_1''))) = Some []
   \<and> content (rewriteMessage exampleMarkers False []
        (toolMsg (Str (str ''42'')) (Some []) (Some (str ''call_1''))))
     = Str (str ''[Result from call_1]:'' @ nl @ str ''42'')"
  by (simp add: toolMsg_def rewriteMessage_def toolResultName_def str_def)

text \<open>
  C10 (amended). For every tool-role message, the tool name written into the rewritten user
  message is the message's \<open>name\<close> when it is present and not empty, otherwise its
  \<open>tool_call_id\<close> when that is present and not empty, otherwise the literal
  \<open>unknown\<close>; a content that is not a string is embedded as \<open>JSON.stringify\<close> renders
  it; the rewriting always yields a user message.
\<close>

theorem rewriteMessage_tool:
  assumes "role msg = str ''tool''"
  shows "rewriteMessage m hasTools prompt msg =
     \<lparr>role = str ''user'',
      content = Str (if hasTools
        then RESULT_START m @ str ''['' @ toolResultName msg @ str '']'' @ nl
             @ toolResultText (content msg) @ RESULT_END m
        else str ''[Result from '' @ toolResultName msg @ str '']:'' @ nl
             @ toolResultText (content msg)),
      tool_calls = None, name = None, tool_call_id = None\<rparr>
   \<and> toolResultName msg =
       (case name msg of
          Some n \<Rightarrow> if n \<noteq> [] then n
            else (case tool_call_id msg of
                    Some i \<Rightarrow> if i \<noteq> [] then i else str ''unknown''
                  | None \<Rightarrow> str ''unknown'')
        | None \<Rightarrow> (case tool_call_id msg of
                    Some i \<Rightarrow> if i \<noteq> [] then i else str ''unknown''
                  | None \<Rightarrow> str ''unknown''))
   \<and> toolResultText (content msg) =
       (case content msg of Str s \<Rightarrow> s | Other t s j \<Rightarrow> j
        | Null \<Rightarrow> str ''null'' | Undefined \<Rightarrow> str ''undefined'')"
proof -
  have "str ''tool'' \<noteq> str ''system''" "str ''tool'' \<noteq> str ''assistant''"
    by (simp_all add: str_def)
  then have "rewriteMessage m hasTools prompt msg =
     \<lparr>role = str ''user'',
      content = Str (if hasTools
        then RESULT_START m @ str ''['' @ toolResultName msg @ str '']'' @ nl
             @ toolResultText (content msg) @ RESULT_END m
        else str ''[Result from '' @ toolResultName msg @ str '']:'' @ nl
             @ toolResultText (content msg)),
      tool_calls = None, name = None, tool_call_id = None\<rparr>"
    using assms by (simp add: rewriteMessage_def)
  moreover have "toolResultName msg =
       (case name msg of
          Some n \<Rightarrow> if n \<noteq> [] then n
            else (case tool_call_id msg of
                    Some i \<Rightarrow> if i \<noteq> [] then i else str ''unknown''
                  | None \<Rightarrow> str ''unknown'')
        | None \<Rightarrow> (case tool_call_id msg of
                    Some i \<Rightarrow> if i \<noteq> [] then i else str ''unknown''
                  | None \<Rightarrow> str ''unknown''))"
    by (simp add: toolResultName_def split: option.splits)
  moreover have "toolResultText (content msg) =
       (case content msg of Str s \<Rightarrow> s | Other t s j \<Rightarrow> j
        | Null \<Rightarrow> str ''null'' | Undefined \<Rightarrow> str ''undefined'')"
    by (cases "content msg") simp_all
  ultimately show ?thesis by blast
qed

theorem rewriteMessage_tool_witness:
  "role (toolMsg (Other True (str ''1,2'') (str ''[1,2]'')) None (Some (str ''call_1'')))
     = str ''tool''
   \<and> rewriteMessage exampleMarkers False []
        (toolMsg (Other True (str ''1,2'') (str ''[1,2]'')) None (Some (str ''call_1'')))
     = \<lparr>role = str ''user'',
        content = Str (str ''[Result from call_1]:'' @ nl @ str ''[1,2]''),
        tool_calls = None, name = None, tool_call_id = None\<rparr>"
proof -
  have h: "role (toolMsg (Other True (str ''1,2'') (str ''[1,2]'')) None (Some (str ''call_1'')))
     = str ''tool''"
    by (simp add: toolMsg_def)
  show ?thesis
    using h rewriteMessage_tool [OF h, of exampleMarkers False "[]"]
    by (simp add: toolMsg_def str_def)
qed

section \<open>Requests without tools\<close>

text \<open>
  Two consecutive user messages, no tools, no tool history: the transcoder merges them, so
  its output is not the input without \<open>tools\<close> and \<open>tool_choice\<close>.
\<close>

theorem transformRequest_merge_counterexample:
  "transformRequest exampleMarkers (plainRequest [userMsg (str ''a''), userMsg (str ''b'')]) False
     = plainRequest [userMsg (str ''a'' @ nl @ nl @ str ''b'')]
   \<and> transformRequest exampleMarkers (plainRequest [userMsg (str ''a''), userMsg (str ''b'')]) False
     \<noteq> (plainRequest [userMsg (str ''a''), userMsg (str ''b'')])\<lparr>tools := None, tool_choice := None\<rparr>"
  by (simp add: transformRequest_def mergeAdjacentMessages_def userMsg_def str_def
      rewriteMessage_def plainRequest_def)

lemma rewriteMessage_id:
  assumes "noToolHistory msg" "plainSystem msg"
  shows "rewriteMessage m hasTools [] msg = msg"
proof (cases "role msg = str ''system''")
  case True
  with assms(2) obtain s where "content msg = Str s" "tool_calls msg = None"
    "name msg = None" "tool_call_id msg = None"
    by (auto simp: plainSystem_def split: content.splits)
  with True show ?thesis
    by (simp add: rewriteMessage_def)
next
  case False
  with assms(1) show ?thesis
    by (auto simp: rewriteMessage_def noToolHistory_def simp del: hasToolCalls.simps)
qed

text \<open>
  C6 (amended). For every chat request that declares no tools, whose history has no
  tool-role message and no assistant message carrying tool calls, in which no two
  consecutive messages share a role and every system message holds a string content and
  no other field, the output of the request transcoder equals the input except that
  \<open>tools\<close> and \<open>tool_choice\<close> are absent.
\<close>

theorem transformRequest_identity:
  assumes "tools req = None \<or> tools req = Some []"
    and "list_all noToolHistory (messages req)"
    and "list_all plainSystem (messages req)"
    and "alternating (messages req)"
  shows "transformRequest m req hasTools = req\<lparr>tools := None, tool_choice := None\<rparr>"
proof -
  have "map (rewriteMessage m hasTools []) (messages req) = messages req"
    using assms(2,3) by (simp add: list_all_iff map_idI rewriteMessage_id)
  with assms(1,4) show ?thesis
    by (auto simp: transformRequest_def Let_def mergeAdjacentMessages_id)
qed

theorem transformRequest_identity_witness:
  "(tools (plainRequest [userMsg (str ''hi''),
        \<lparr>role = str ''assistant'', content = Str (str ''hello''), tool_calls = Some [],
         name = None, tool_call_id = None\<rparr>]) = None
    \<or> tools (plainRequest [userMsg (str ''hi''),
        \<lparr>role = str ''assistant'', content = Str (str ''hello''), tool_calls = Some [],
         name = None, tool_call_id = None\<rparr>]) = Some [])
   \<and> transformRequest exampleMarkers (plainRequest [userMsg (str ''hi''),
        \<lparr>role = str ''assistant'', content = Str (str ''hello''), tool_calls = Some [],
         name = None, tool_call_id = None\<rparr>]) True
     = plainRequest [userMsg (str ''hi''),
        \<lparr>role = str ''assistant'', content = Str (str ''hello''), tool_calls = Some [],
         name = None, tool_call_id = None\<rparr>]"
proof -
  let ?req = "plainRequest [userMsg (str ''hi''),
        \<lparr>role = str ''assistant'', content = Str (str ''hello''), tool_calls = Some [],
         name = None, tool_call_id = None\<rparr>]"
  have h1: "tools ?req = None \<or> tools ?req = Some []"
    by (simp add: plainRequest_def)
  have h2: "list_all noToolHistory (messages ?req)"
    by (simp add: plainRequest_def noToolHistory_def userMsg_def str_def)
  have h3: "list_all plainSystem (messages ?req)"
    by (simp add: plainRequest_def plainSystem_def userMsg_def str_def)
  have h4: "alternating (messages ?req)"
    by (simp add: plainRequest_def userMsg_def str_def)
  show ?thesis
    using h1 transformRequest_identity [OF h1 h2 h3 h4, of exampleMarkers True]
    by (simp add: plainRequest_def)
qed

section \<open>Decimal numerals and addresses\<close>

lemma digitChar_cases:
  assumes "d < 10"
  shows "digitChar d \<in> {0x30, 0x31, 0x32, 0x33, 0x34, 0x35, 0x36, 0x37, 0x38, 0x39}
    \<and> unat (digitChar d) = 48 + d"
proof -
  from assms have "d \<in> {0, 1, 2, 3, 4, 5, 6, 7, 8, 9}" by auto
  then show ?thesis by (auto simp: digitChar_def)
qed

lemma digitChar_isDigit: "d < 10 \<Longrightarrow> isDigit (digitChar d)"
  using digitChar_cases [of d] by (auto simp: isDigit_def)

lemma digitChar_not_dot: "d < 10 \<Longrightarrow> digitChar d \<noteq> 0x2E"
  using digitChar_cases [of d] by auto

lemma showNat_digits: "list_all isDigit (showNat n)"
proof (induction n rule: showNat.induct)
  case (1 n)
  show ?case
  proof (cases "n < 10")
    case True
    then show ?thesis by (subst showNat.simps) (simp add: digitChar_isDigit)
  next
    case False
    with 1 show ?thesis by (subst showNat.simps) (simp add: digitChar_isDigit)
  qed
qed

lemma isDigit_not_dot: "isDigit c \<Longrightarrow> c \<noteq> 0x2E"
  by (auto simp: isDigit_def)

lemma showNat_no_dot: "0x2E \<notin> set (showNat n)"
  using showNat_digits [of n] isDigit_not_dot by (auto simp: list_all_iff)

lemma showNat_value: "foldl (\<lambda>acc c. 10 * acc + (unat c - 48)) 0 (showNat n) = n"
proof (induction n rule: showNat.induct)
  case (1 n)
  show ?case
  proof (cases "n < 10")
    case True
    then show ?thesis
      by (subst showNat.simps) (simp add: digitChar_cases)
  next
    case False
    have "n mod 10 < 10" by simp
    with False 1 show ?thesis
      by (subst showNat.simps) (simp add: digitChar_cases)
  qed
qed

lemma Number_showNat: "Number (showNat n) = Some n"
  by (simp add: Number_def showNat_digits showNat_value)

lemma split_no_sep: "sep \<notin> set x \<Longrightarrow> split sep x = [x]"
  by (induction x) auto

lemma split_at_sep: "sep \<notin> set x \<Longrightarrow> split sep (x @ sep # y) = x # split sep y"
  by (induction x) auto

lemma split_dotted:
  "split 0x2E (dotted a b c d) = [showNat a, showNat b, showNat c, showNat d]"
  by (simp add: dotted_def split_at_sep split_no_sep showNat_no_dot)

lemma privateAddress_dotted:
  "privateAddress (dotted a b c d) =
     (if a = 10 then Some (str ''Private IP range (10.x.x.x) denied'')
      else if a = 172 \<and> 16 \<le> b \<and> b \<le> 31
      then Some (str ''Private IP range (172.16-31.x.x) denied'')
      else if a = 192 \<and> b = 168 then Some (str ''Private IP range (192.168.x.x) denied'')
      else if a = 127 then Some (str ''Loopback IP denied'')
      else None)"
  by (auto simp: privateAddress_def split_dotted Number_showNat Let_def)

lemma extractUpstream_nonempty: "extractUpstream url = Some u \<Longrightarrow> u \<noteq> []"
  by (auto simp: extractUpstream_def split: list.splits if_splits)

lemma privateAddress_isPrivate:
  "isPrivate a b \<Longrightarrow> \<exists>err. privateAddress (dotted a b c d) = Some err"
  by (auto simp: privateAddress_dotted isPrivate_def)

lemma validateUpstream_invalid:
  assumes "\<not> allow"
    and "upstream = None
      \<or> (\<exists>u. upstream = Some u \<and>
           (parseURL u = None
            \<or> (\<exists>p. parseURL u = Some p \<and>
                 ((protocol p \<noteq> str ''http:'' \<and> protocol p \<noteq> str ''https:'')
                  \<or> hostname p = str ''localhost'' \<or> hostname p = str ''127.0.0.1''
                  \<or> hostname p = str ''::1'' \<or> hostname p = str ''0.0.0.0''
                  \<or> (\<exists>a b c d. dnsLookup (hostname p) = Some (dotted a b c d)
                        \<and> isPrivate a b)))))"
  shows "\<exists>err. validateUpstream allow parseURL dnsLookup upstream = Invalid err"
  using assms(2)
proof (elim disjE exE conjE)
  assume "upstream = None"
  then show ?thesis by (simp add: validateUpstream_def)
next
  fix u assume "upstream = Some u" "parseURL u = None"
  then show ?thesis by (simp add: validateUpstream_def)
next
  fix u p assume "upstream = Some u" "parseURL u = Some p"
    "protocol p \<noteq> str ''http:''" "protocol p \<noteq> str ''https:''"
  then show ?thesis by (simp add: validateUpstream_def)
next
  fix u p assume "upstream = Some u" "parseURL u = Some p" "hostname p = str ''localhost''"
  with assms(1) show ?thesis by (simp add: validateUpstream_def)
next
  fix u p assume "upstream = Some u" "parseURL u = Some p" "hostname p = str ''127.0.0.1''"
  with assms(1) show ?thesis by (simp add: validateUpstream_def)
next
  fix u p assume "upstream = Some u" "parseURL u = Some p" "hostname p = str ''::1''"
  with assms(1) show ?thesis by (simp add: validateUpstream_def)
next
  fix u p assume "upstream = Some u" "parseURL u = Some p" "hostname p = str ''0.0.0.0''"
  with assms(1) show ?thesis by (simp add: validateUpstream_def)
next
  fix u p a b c d
  assume "upstream = Some u" "parseURL u = Some p"
    "dnsLookup (hostname p) = Some (dotted a b c d)" "isPrivate a b"
  with assms(1) privateAddress_isPrivate [of a b c d] show ?thesis
    by (auto simp: validateUpstream_def)
qed

text \<open>
  What the check does, whatever the URL parser and the resolver report: with
  \<open>ALLOW_LOCAL_NET\<close> not enabled, a missing or unparseable URL, a scheme other than http
  or https, a reported hostname equal to localhost, 127.0.0.1, ::1 or 0.0.0.0, or a
  resolved IPv4 address in 10/8, 172.16/12, 192.168/16 or 127/8 gives status 403 and the
  body \<open>{error: {message: "Access denied: <reason>", type: "security_error"}}\<close>; with
  the flag enabled a parseable http or https URL goes on to the upstream.
\<close>

lemma admitRequest_guard:
  "(\<not> allow \<and>
     (extractUpstream url = None
      \<or> (\<exists>u. extractUpstream url = Some u \<and>
           (parseURL u = None
            \<or> (\<exists>p. parseURL u = Some p \<and>
                 ((protocol p \<noteq> str ''http:'' \<and> protocol p \<noteq> str ''https:'')
                  \<or> hostname p = str ''localhost'' \<or> hostname p = str ''127.0.0.1''
                  \<or> hostname p = str ''::1'' \<or> hostname p = str ''0.0.0.0''
                  \<or> (\<exists>a b c d. dnsLookup (hostname p) = Some (dotted a b c d)
                        \<and> isPrivate a b))))))
     \<longrightarrow> (\<exists>reason. admitRequest allow parseURL dnsLookup url
            = Denied 403 (str ''Access denied: '' @ reason) (str ''security_error'')))
   \<and> (allow \<and> extractUpstream url = Some u \<and> parseURL u = Some p
       \<and> (protocol p = str ''http:'' \<or> protocol p = str ''https:'')
     \<longrightarrow> admitRequest allow parseURL dnsLookup url = Forward u)"
proof (intro conjI impI)
  assume a: "\<not> allow \<and>
     (extractUpstream url = None
      \<or> (\<exists>u. extractUpstream url = Some u \<and>
           (parseURL u = None
            \<or> (\<exists>p. parseURL u = Some p \<and>
                 ((protocol p \<noteq> str ''http:'' \<and> protocol p \<noteq> str ''https:'')
                  \<or> hostname p = str ''localhost'' \<or> hostname p = str ''127.0.0.1''
                  \<or> hostname p = str ''::1'' \<or> hostname p = str ''0.0.0.0''
                  \<or> (\<exists>a b c d. dnsLookup (hostname p) = Some (dotted a b c d)
                        \<and> isPrivate a b))))))"
  then obtain err where
    "validateUpstream allow parseURL dnsLookup (extractUpstream url) = Invalid err"
    using validateUpstream_invalid [of allow "extractUpstream url" parseURL dnsLookup]
    by blast
  then show "\<exists>reason. admitRequest allow parseURL dnsLookup url
            = Denied 403 (str ''Access denied: '' @ reason) (str ''security_error'')"
    by (simp add: admitRequest_def)
next
  assume a: "allow \<and> extractUpstream url = Some u \<and> parseURL u = Some p
       \<and> (protocol p = str ''http:'' \<or> protocol p = str ''https:'')"
  then have "u \<noteq> []" using extractUpstream_nonempty by blast
  with a have "validateUpstream allow parseURL dnsLookup (extractUpstream url) = Valid"
    by (auto simp: validateUpstream_def)
  with a show "admitRequest allow parseURL dnsLookup url = Forward u"
    by (simp add: admitRequest_def)
qed

lemma example_extract:
  "extractUpstream (str ''/http://127.0.0.1:8080/x'') = Some (str ''http://127.0.0.1:8080/x'')"
  by (simp add: extractUpstream_def str_def isLineTerminator_def)

lemma admitRequest_guard_example:
  "admitRequest False localUrl noDns (str ''/http://127.0.0.1:8080/x'')
     = Denied 403
         (str ''Access denied: Localhost access denied (Set ALLOW_LOCAL_NET=true to enable)'')
         (str ''security_error'')
   \<and> admitRequest True localUrl noDns (str ''/http://127.0.0.1:8080/x'')
     = Forward (str ''http://127.0.0.1:8080/x'')"
proof -
  have p: "localUrl (str ''http://127.0.0.1:8080/x'')
    = Some \<lparr>protocol = str ''http:'', hostname = str ''127.0.0.1''\<rparr>"
    by (simp add: localUrl_def)
  have "admitRequest True localUrl noDns (str ''/http://127.0.0.1:8080/x'')
     = Forward (str ''http://127.0.0.1:8080/x'')"
    using admitRequest_guard [of True "str ''/http://127.0.0.1:8080/x''" localUrl noDns
        "str ''http://127.0.0.1:8080/x''"
        "\<lparr>protocol = str ''http:'', hostname = str ''127.0.0.1''\<rparr>"]
      example_extract p by simp
  moreover have "admitRequest False localUrl noDns (str ''/http://127.0.0.1:8080/x'')
     = Denied 403
         (str ''Access denied: Localhost access denied (Set ALLOW_LOCAL_NET=true to enable)'')
         (str ''security_error'')"
    unfolding admitRequest_def example_extract validateUpstream_def localUrl_def
    by (simp add: str_def)
  ultimately show ?thesis by simp
qed

declare parseLoop.simps [simp del] replaceAll.simps [simp del] matchHere.simps(5) [simp del]

text \<open>
  C7 (code defect). The request \<open>/http://[::1]:8080/x\<close> with \<open>ALLOW_LOCAL_NET\<close> not
  enabled: the URL parser reports the hostname \<open>[::1]\<close>, which is not the list entry
  \<open>::1\<close>, and neither a failing lookup nor the address \<open>::1\<close> has four dot-separated
  parts, so the request to the loopback address is not answered with 403 but goes on to
  the upstream.
\<close>

theorem admitRequest_ipv6_loopback:
  "admitRequest False ipv6Url noDns (str ''/http://[::1]:8080/x'')
     = Forward (str ''http://[::1]:8080/x'')
   \<and> admitRequest False ipv6Url loopbackDns (str ''/http://[::1]:8080/x'')
     = Forward (str ''http://[::1]:8080/x'')"
proof -
  have e: "extractUpstream (str ''/http://[::1]:8080/x'') = Some (str ''http://[::1]:8080/x'')"
    by (simp add: extractUpstream_def str_def isLineTerminator_def)
  have p: "privateAddress (str ''::1'') = None"
    by (simp add: privateAddress_def str_def Let_def)
  have h: "str ''[::1]'' \<notin> set [str ''localhost'', str ''127.0.0.1'', str ''::1'',
      str ''0.0.0.0'']"
    by (simp add: str_def)
  show ?thesis
    unfolding admitRequest_def e validateUpstream_def ipv6Url_def noDns_def loopbackDns_def
    using p h by (simp add: str_def)
qed

section \<open>The parser returns\<close>

lemma matchHere_Capture_Some:
  assumes "matchHere (Capture # ps) s = Some (caps, rest)"
  shows "(\<exists>caps'. matchHere ps s = Some (caps', rest) \<and> caps = [] # caps')
    \<or> (\<exists>c cs cap caps'. matchHere ps s = None \<and> s = c # cs
          \<and> matchHere (Capture # ps) cs = Some (cap # caps', rest)
          \<and> caps = (c # cap) # caps')"
  using assms
  by (subst (asm) matchHere.simps(5))
     (auto split: option.splits list.splits prod.splits)

lemma matchHere_length:
  "matchHere ps s = Some (caps, rest) \<Longrightarrow> length rest \<le> length s"
proof (induction ps s arbitrary: caps rest rule: matchHere.induct)
  case (1 s)
  then show ?case by simp
next
  case (2 l ps s)
  then show ?case by (fastforce split: if_splits)
next
  case (3 ps)
  then show ?case by simp
next
  case (4 ps c cs)
  then show ?case by (fastforce split: if_splits option.splits)
next
  case (5 ps s)
  from matchHere_Capture_Some [OF "5.prems"] show ?case
  proof (elim disjE exE conjE)
    fix caps' assume "matchHere ps s = Some (caps', rest)"
    then show ?thesis by (rule "5.IH"(1))
  next
    fix c cs cap caps'
    assume a: "matchHere ps s = None" "s = c # cs"
      "matchHere (Capture # ps) cs = Some (cap # caps', rest)"
    from "5.IH"(2) [OF a] a(2) show ?thesis by simp
  qed
qed

lemma matchHere_Lit_shorter:
  assumes "matchHere (Lit l # ps) s = Some (caps, rest)" "l \<noteq> []"
  shows "length rest < length s"
proof -
  from assms(1) have p: "prefix l s" and m: "matchHere ps (drop (length l) s) = Some (caps, rest)"
    by (auto split: if_splits)
  from p assms(2) have "length (drop (length l) s) < length s"
    by (auto simp: prefix_def)
  with matchHere_length [OF m] show ?thesis by simp
qed

lemma regexExec_shorter:
  assumes "regexExec (Lit l # ps) s = Some (before, caps, rest)" "l \<noteq> []"
  shows "length rest < length s"
  using assms(1)
proof (induction s arbitrary: before)
  case Nil
  then show ?case
    using assms(2) by (auto split: option.splits if_splits)
next
  case (Cons c cs)
  show ?case
  proof (cases "matchHere (Lit l # ps) (c # cs)")
    case None
    with Cons.prems obtain b where "regexExec (Lit l # ps) cs = Some (b, caps, rest)"
      by (auto split: option.splits)
    from Cons.IH [OF this] show ?thesis by simp
  next
    case (Some r)
    with Cons.prems have "matchHere (Lit l # ps) (c # cs) = Some (caps, rest)"
      by (auto split: option.splits)
    from matchHere_Lit_shorter [OF this assms(2)] show ?thesis .
  qed
qed

lemma parseLoop_returns:
  assumes "TC_START m \<noteq> []"
  shows "\<exists>tcs. parseLoop m now rest idx acc = Some tcs"
proof (induction rest arbitrary: idx acc rule: length_induct)
  case (1 rest)
  show ?case
  proof (cases "regexExec (toolCallRegex m) rest")
    case None
    then show ?thesis by (subst parseLoop.simps) simp
  next
    case (Some r)
    obtain before caps rest' where r: "r = (before, caps, rest')"
      by (cases r) auto
    have "length rest' < length rest"
      using Some r assms regexExec_shorter [of "TC_START m" _ rest before caps rest']
      by (simp add: toolCallRegex_def)
    with 1 Some r show ?thesis
      by (subst parseLoop.simps) auto
  qed
qed


lemma regexExec_empty: "TC_START m \<noteq> [] \<Longrightarrow> regexExec (toolCallRegex m) [] = None"
  by (simp add: toolCallRegex_def)



lemma exampleMarkers_eq:
  "exampleMarkers = \<lparr>TC_START = [0x0F12, 0x9F98, 0x1405], TC_END = [0x140A, 0x9F98, 0x0F12],
     NAME_START = [0x0FC7, 0x25B8], NAME_END = [0x25C2, 0x0FC7],
     ARGS_START = [0x0FC7, 0x25B9], ARGS_END = [0x25C3, 0x0FC7],
     RESULT_START = [0x0F12, 0x9F98, 0x27EB], RESULT_END = [0x27EA, 0x9F98, 0x0F12]\<rparr>"
  by (simp add: exampleMarkers_def generateMarkers_def DELIMITER_SETS_def SUFFIX_POOL_def)

lemmas eval_simps = exampleMarkers_eq envelope_def envelopeWs_def str_def nl_def
  toolCallRegex_def trim_def isWs_def JSON_valid_def startValue_def afterValue_def
  isJsonWs_def isDigit_def digitChar_def parse_def fixedClock_def
  parseLoop.simps replaceAll.simps matchHere.simps(5) showNat.simps





section \<open>Matching a tool-call block\<close>

lemma DELIMITER_SETS_good:
  "list_all (\<lambda>d. \<forall>c1 c2.
      c1 \<notin> {0x0F12, 0xA9C1, 0x1392, 0xA188, 0xAA5C, 0xA4F8} \<longrightarrow>
      goodMarkers \<lparr>TC_START = d_open d @ [c1] @ [0x1405],
         TC_END = [0x140A] @ [c1] @ d_close d,
         NAME_START = d_mid d @ [0x25B8],
         NAME_END = [0x25C2] @ d_mid d,
         ARGS_START = d_mid d @ [0x25B9],
         ARGS_END = [0x25C3] @ d_mid d,
         RESULT_START = d_open d @ [c2] @ [0x27EB],
         RESULT_END = [0x27EA] @ [c2] @ d_close d\<rparr>) DELIMITER_SETS"
  by (simp add: DELIMITER_SETS_def goodMarkers_def selfFree_def startsVisible_def isWs_def)

lemma SUFFIX_POOL_not_open:
  "list_all (\<lambda>s. \<exists>c. s = [c] \<and> c \<notin> {0x0F12, 0xA9C1, 0x1392, 0xA188, 0xAA5C, 0xA4F8})
     SUFFIX_POOL"
  by (simp add: SUFFIX_POOL_def)

lemma generateMarkers_good:
  assumes "r0 < length DELIMITER_SETS" "r1 < length SUFFIX_POOL" "r2 < length SUFFIX_POOL"
  shows "goodMarkers (generateMarkers r0 r1 r2)"
proof -
  have "SUFFIX_POOL ! r1 \<in> set SUFFIX_POOL"
    using assms(2) by (rule nth_mem)
  with SUFFIX_POOL_not_open obtain c1 where
    c1: "SUFFIX_POOL ! r1 = [c1]" "c1 \<notin> {0x0F12, 0xA9C1, 0x1392, 0xA188, 0xAA5C, 0xA4F8}"
    by (auto simp: list_all_iff)
  obtain c2 where c2: "SUFFIX_POOL ! r2 = [c2]"
    using assms(3) by (rule SUFFIX_POOL_nth)
  have "DELIMITER_SETS ! r0 \<in> set DELIMITER_SETS"
    using assms(1) by (rule nth_mem)
  with DELIMITER_SETS_good c1 c2 show ?thesis
    unfolding list_all_iff generateMarkers_def Let_def by fastforce
qed

lemma exampleMarkers_good: "goodMarkers exampleMarkers"
  unfolding exampleMarkers_def
  by (rule generateMarkers_good) (simp_all add: DELIMITER_SETS_def SUFFIX_POOL_def)

subsection \<open>The first occurrence of a pattern\<close>

lemma indexOf_None_iff: "indexOf s p = None \<longleftrightarrow> (\<forall>k \<le> length s. \<not> prefix p (drop k s))"
proof (induction s)
  case Nil
  then show ?case by auto
next
  case (Cons c cs)
  have "(\<forall>k \<le> length (c # cs). \<not> prefix p (drop k (c # cs)))
    \<longleftrightarrow> \<not> prefix p (c # cs) \<and> (\<forall>k \<le> length cs. \<not> prefix p (drop k cs))"
  proof
    assume a: "\<forall>k \<le> length (c # cs). \<not> prefix p (drop k (c # cs))"
    have "\<not> prefix p (c # cs)" using a [rule_format, of 0] by simp
    moreover have "\<forall>k \<le> length cs. \<not> prefix p (drop k cs)"
    proof (intro allI impI)
      fix k assume "k \<le> length cs"
      then show "\<not> prefix p (drop k cs)" using a [rule_format, of "Suc k"] by simp
    qed
    ultimately show "\<not> prefix p (c # cs) \<and> (\<forall>k \<le> length cs. \<not> prefix p (drop k cs))"
      by simp
  next
    assume a: "\<not> prefix p (c # cs) \<and> (\<forall>k \<le> length cs. \<not> prefix p (drop k cs))"
    show "\<forall>k \<le> length (c # cs). \<not> prefix p (drop k (c # cs))"
    proof (intro allI impI)
      fix k assume "k \<le> length (c # cs)"
      then show "\<not> prefix p (drop k (c # cs))"
        using a by (cases k) auto
    qed
  qed
  with Cons show ?case by (auto split: option.splits)
qed

lemma indexOf_append_None:
  "indexOf (a @ b) p = None \<Longrightarrow> indexOf a p = None \<and> indexOf b p = None"
proof (induction a)
  case Nil
  then show ?case by (cases b) (auto split: if_splits)
next
  case (Cons c a)
  from Cons.prems have np: "\<not> prefix p (c # a @ b)" and r: "indexOf (a @ b) p = None"
    by (auto split: if_splits option.splits)
  have "prefix p (c # a) \<Longrightarrow> prefix p ((c # a) @ b)"
    by (rule prefix_prefix)
  with np have "\<not> prefix p (c # a)" by auto
  with Cons.IH [OF r] show ?case by simp
qed

lemma selfFree_no_overlap:
  assumes "selfFree p" "\<not> prefix p (c # x)"
  shows "\<not> prefix p (c # x @ p @ s)"
proof
  assume a: "prefix p (c # x @ p @ s)"
  from assms(1) obtain g t where p: "p = g # t" "g \<notin> set t"
    by (auto simp: selfFree_def split: list.splits)
  from a p have gc: "g = c" and pt: "prefix t (x @ (g # t) @ s)" by auto
  from assms(2) p gc have "\<not> prefix t x" by auto
  with pt obtain u where u: "t = x @ u" "prefix u ((g # t) @ s)"
    unfolding prefix_append by blast
  with \<open>\<not> prefix t x\<close> have "u \<noteq> []" by auto
  with u have "g \<in> set t"
    by (cases u) auto
  with p(2) show False by simp
qed

lemma indexOf_first:
  assumes "selfFree p" "indexOf x p = None"
  shows "indexOf (x @ p @ s) p = Some (length x)"
  using assms(2)
proof (induction x)
  case Nil
  from assms(1) obtain g t where "p = g # t"
    by (auto simp: selfFree_def split: list.splits)
  then show ?case by simp
next
  case (Cons c x)
  from Cons.prems have np: "\<not> prefix p (c # x)" and r: "indexOf x p = None"
    by (auto split: if_splits option.splits)
  from selfFree_no_overlap [OF assms(1) np] Cons.IH [OF r] show ?case by simp
qed

subsection \<open>The pieces of the pattern\<close>

lemma matchHere_WsStar:
  assumes "list_all isWs w" "matchHere ps s = Some r" "startsVisible s"
  shows "matchHere (WsStar # ps) (w @ s) = Some r"
  using assms(1)
proof (induction w)
  case Nil
  from assms(3) obtain c cs where "s = c # cs" "\<not> isWs c"
    by (auto simp: startsVisible_def split: list.splits)
  with assms(2) show ?case by simp
next
  case (Cons x w)
  then show ?case by simp
qed

lemma matchHere_Lit: "matchHere (Lit l # ps) (l @ s) = matchHere ps s"
  by simp

lemma matchHere_Capture:
  assumes "indexOf (x @ l @ s) l = Some (length x)"
    and "matchHere ps s = Some (caps, rest)"
  shows "matchHere (Capture # Lit l # ps) (x @ l @ s) = Some (x # caps, rest)"
  using assms(1)
proof (induction x)
  case Nil
  with assms(2) show ?case
    by (subst matchHere.simps(5)) simp
next
  case (Cons c x)
  from Cons.prems have np: "\<not> prefix l (c # x @ l @ s)"
    and r: "indexOf (x @ l @ s) l = Some (length x)"
    by (auto split: if_splits option.splits)
  from np Cons.IH [OF r] show ?case
    by (subst matchHere.simps(5)) simp
qed

lemma startsVisible_append: "startsVisible p \<Longrightarrow> startsVisible (p @ s)"
  by (cases p) (auto simp: startsVisible_def)

lemma matchHere_envelope:
  assumes "goodMarkers m"
    and "indexOf fname (NAME_END m) = None"
    and "indexOf args (ARGS_END m) = None"
    and "list_all isWs w1" "list_all isWs w2" "list_all isWs w3"
  shows "matchHere (toolCallRegex m) (envelopeWs m w1 fname w2 args w3 @ rest)
    = Some ([fname, args], rest)"
proof -
  from assms(1) have sf: "selfFree (NAME_END m)" "selfFree (ARGS_END m)"
    and sv: "startsVisible (NAME_START m)" "startsVisible (ARGS_START m)"
      "startsVisible (TC_END m)"
    by (auto simp: goodMarkers_def)
  have e1: "matchHere [Lit (TC_END m)] (TC_END m @ rest) = Some ([], rest)"
    by simp
  have e2: "matchHere [WsStar, Lit (TC_END m)] (w3 @ TC_END m @ rest) = Some ([], rest)"
    by (rule matchHere_WsStar [OF assms(6) e1 startsVisible_append [OF sv(3)]])
  have e3: "matchHere [Capture, Lit (ARGS_END m), WsStar, Lit (TC_END m)]
      (args @ ARGS_END m @ w3 @ TC_END m @ rest) = Some ([args], rest)"
    by (rule matchHere_Capture [OF indexOf_first [OF sf(2) assms(3)] e2])
  have e4: "matchHere [Lit (ARGS_START m), Capture, Lit (ARGS_END m), WsStar, Lit (TC_END m)]
      (ARGS_START m @ args @ ARGS_END m @ w3 @ TC_END m @ rest) = Some ([args], rest)"
    using e3 by (simp only: matchHere_Lit)
  have e5: "matchHere [WsStar, Lit (ARGS_START m), Capture, Lit (ARGS_END m), WsStar,
        Lit (TC_END m)]
      (w2 @ ARGS_START m @ args @ ARGS_END m @ w3 @ TC_END m @ rest) = Some ([args], rest)"
    by (rule matchHere_WsStar [OF assms(5) e4 startsVisible_append [OF sv(2)]])
  have e6: "matchHere [Capture, Lit (NAME_END m), WsStar, Lit (ARGS_START m), Capture,
        Lit (ARGS_END m), WsStar, Lit (TC_END m)]
      (fname @ NAME_END m @ w2 @ ARGS_START m @ args @ ARGS_END m @ w3 @ TC_END m @ rest)
      = Some ([fname, args], rest)"
    by (rule matchHere_Capture [OF indexOf_first [OF sf(1) assms(2)] e5])
  have e7: "matchHere [Lit (NAME_START m), Capture, Lit (NAME_END m), WsStar,
        Lit (ARGS_START m), Capture, Lit (ARGS_END m), WsStar, Lit (TC_END m)]
      (NAME_START m @ fname @ NAME_END m @ w2 @ ARGS_START m @ args @ ARGS_END m @ w3
       @ TC_END m @ rest)
      = Some ([fname, args], rest)"
    using e6 by (simp only: matchHere_Lit)
  have e8: "matchHere [WsStar, Lit (NAME_START m), Capture, Lit (NAME_END m), WsStar,
        Lit (ARGS_START m), Capture, Lit (ARGS_END m), WsStar, Lit (TC_END m)]
      (w1 @ NAME_START m @ fname @ NAME_END m @ w2 @ ARGS_START m @ args @ ARGS_END m @ w3
       @ TC_END m @ rest)
      = Some ([fname, args], rest)"
    by (rule matchHere_WsStar [OF assms(4) e7 startsVisible_append [OF sv(1)]])
  have "matchHere (toolCallRegex m)
      (TC_START m @ w1 @ NAME_START m @ fname @ NAME_END m @ w2 @ ARGS_START m @ args
       @ ARGS_END m @ w3 @ TC_END m @ rest) = Some ([fname, args], rest)"
    unfolding toolCallRegex_def using e8 by (simp only: matchHere_Lit)
  then show ?thesis
    by (simp add: envelopeWs_def)
qed

lemma regexExec_skip:
  assumes "indexOf (pre @ s) p = Some (length pre)"
    and "matchHere (Lit p # ps) s = Some (caps, rest)"
  shows "regexExec (Lit p # ps) (pre @ s) = Some (pre, caps, rest)"
  using assms(1)
proof (induction pre)
  case Nil
  with assms(2) show ?case by (cases s) auto
next
  case (Cons c pre)
  from Cons.prems have np: "\<not> prefix p (c # pre @ s)"
    and r: "indexOf (pre @ s) p = Some (length pre)"
    by (auto split: if_splits option.splits)
  from np Cons.IH [OF r] show ?case by simp
qed

lemma regexExec_envelope:
  assumes "goodMarkers m"
    and "indexOf pre (TC_START m) = None"
    and "indexOf fname (NAME_END m) = None"
    and "indexOf args (ARGS_END m) = None"
    and "list_all isWs w1" "list_all isWs w2" "list_all isWs w3"
  shows "regexExec (toolCallRegex m) (pre @ envelopeWs m w1 fname w2 args w3 @ rest)
    = Some (pre, [fname, args], rest)"
proof -
  from assms(1) have sf: "selfFree (TC_START m)"
    by (simp add: goodMarkers_def)
  obtain body where b: "envelopeWs m w1 fname w2 args w3 @ rest = TC_START m @ body"
    by (simp add: envelopeWs_def)
  have i: "indexOf (pre @ envelopeWs m w1 fname w2 args w3 @ rest) (TC_START m)
      = Some (length pre)"
    unfolding b by (rule indexOf_first [OF sf assms(2)])
  have mh: "matchHere (Lit (TC_START m) # tl (toolCallRegex m))
      (envelopeWs m w1 fname w2 args w3 @ rest) = Some ([fname, args], rest)"
    using matchHere_envelope [OF assms(1,3,4,5,6,7), of rest]
    by (simp add: toolCallRegex_def)
  have "regexExec (Lit (TC_START m) # tl (toolCallRegex m))
      (pre @ envelopeWs m w1 fname w2 args w3 @ rest) = Some (pre, [fname, args], rest)"
    by (rule regexExec_skip [OF i mh])
  then show ?thesis
    by (simp add: toolCallRegex_def)
qed

section \<open>A block with malformed arguments\<close>

lemma goodMarkers_TC_START: "goodMarkers m \<Longrightarrow> TC_START m \<noteq> []"
  by (auto simp: goodMarkers_def selfFree_def)

lemma envelopeWs_nonempty: "goodMarkers m \<Longrightarrow> envelopeWs m w1 fname w2 args w3 \<noteq> []"
  by (auto simp: envelopeWs_def dest: goodMarkers_TC_START)

lemma parseLoop_skip_malformed:
  assumes "goodMarkers m"
    and "indexOf pre (TC_START m) = None"
    and "indexOf fname (NAME_END m) = None"
    and "indexOf args (ARGS_END m) = None"
    and "list_all isWs w1" "list_all isWs w2" "list_all isWs w3"
    and "\<not> JSON_valid (trim args)"
  shows "parseLoop m now (pre @ envelopeWs m w1 fname w2 args w3 @ post) idx acc
    = parseLoop m now post idx acc"
proof -
  note ex = regexExec_envelope [OF assms(1-7), of post]
  note ne = envelopeWs_nonempty [OF assms(1), of w1 fname w2 args w3]
  show ?thesis
    using assms(8)
    by (subst parseLoop.simps) (simp add: ex ne del: regexExec.simps)
qed

lemma replaceAll_envelope:
  assumes "goodMarkers m"
    and "indexOf pre (TC_START m) = None"
    and "indexOf fname (NAME_END m) = None"
    and "indexOf args (ARGS_END m) = None"
    and "list_all isWs w1" "list_all isWs w2" "list_all isWs w3"
  shows "replaceAll (toolCallRegex m) (pre @ envelopeWs m w1 fname w2 args w3 @ post)
    = pre @ replaceAll (toolCallRegex m) post"
proof -
  note ex = regexExec_envelope [OF assms(1-7), of post]
  note ne = envelopeWs_nonempty [OF assms(1), of w1 fname w2 args w3]
  show ?thesis
    by (subst replaceAll.simps) (simp add: ex ne del: regexExec.simps)
qed

text \<open>
  The block of the spec's scenario 7, with the argument text \<open>{oops}\<close>: the parser extracts
  nothing and the residual text is \<open>Sure.\<close>; the block is not in it.
\<close>

theorem parse_malformed_counterexample:
  "\<not> JSON_valid (str ''{oops}'')
   \<and> parse exampleMarkers fixedClock
        (str ''Sure.'' @ nl @ envelope exampleMarkers (str ''add'') (str ''{oops}''))
     = Some ([], str ''Sure.'')"
  by (simp add: eval_simps)

text \<open>
  C1 (amended). For every input text \<open>pre + block + post\<close>, where \<open>pre\<close> contains no
  \<open>TC_START\<close>, the block is a delimiter envelope whose name contains no \<open>NAME_END\<close> and
  whose argument text contains no \<open>ARGS_END\<close> and, once trimmed as the parser trims it
  (\<open>match[2].trim()\<close>), is not valid JSON: the parser does not extract the envelope as a
  tool call (it returns the tool calls of \<open>post\<close>), and the whole block, delimiters
  included, is deleted from the residual text, which is \<open>pre\<close> followed by the residual
  of \<open>post\<close>, trimmed.
\<close>

theorem parse_malformed_block:
  assumes "r0 < length DELIMITER_SETS" and "r1 < length SUFFIX_POOL"
    and "r2 < length SUFFIX_POOL" and "m = generateMarkers r0 r1 r2"
    and "indexOf pre (TC_START m) = None"
    and "indexOf fname (NAME_END m) = None"
    and "indexOf args (ARGS_END m) = None"
    and "list_all isWs w1" and "list_all isWs w2" and "list_all isWs w3"
    and "\<not> JSON_valid (trim args)"
  shows "\<exists>toolCalls.
    parse m now post = Some (toolCalls, trim (replaceAll (toolCallRegex m) post))
    \<and> parse m now (pre @ envelopeWs m w1 fname w2 args w3 @ post)
      = Some (toolCalls, trim (pre @ replaceAll (toolCallRegex m) post))"
proof -
  have g: "goodMarkers m"
    unfolding assms(4) by (rule generateMarkers_good [OF assms(1-3)])
  obtain toolCalls where p: "parseLoop m now post 0 [] = Some toolCalls"
    using parseLoop_returns [OF goodMarkers_TC_START [OF g]] by blast
  have "parseLoop m now (pre @ envelopeWs m w1 fname w2 args w3 @ post) 0 [] = Some toolCalls"
    using parseLoop_skip_malformed [OF g assms(5-11)] p by simp
  with p show ?thesis
    by (simp add: parse_def replaceAll_envelope [OF g assms(5-10)])
qed

theorem parse_malformed_block_witness:
  "\<not> JSON_valid (trim (str ''{oops}''))
   \<and> indexOf (str ''Sure.'' @ nl) (TC_START exampleMarkers) = None
   \<and> parse exampleMarkers fixedClock
       ((str ''Sure.'' @ nl) @ envelopeWs exampleMarkers nl (str ''add'') nl (str ''{oops}'') nl
        @ [])
     = Some ([], str ''Sure.'')"
proof -
  have h0: "(0::nat) < length DELIMITER_SETS" by (simp add: DELIMITER_SETS_def)
  have h1: "(0::nat) < length SUFFIX_POOL" by (simp add: SUFFIX_POOL_def)
  have h5: "indexOf (str ''Sure.'' @ nl) (TC_START exampleMarkers) = None"
    by (simp add: exampleMarkers_eq str_def nl_def)
  have h6: "indexOf (str ''add'') (NAME_END exampleMarkers) = None"
    by (simp add: exampleMarkers_eq str_def)
  have h7: "indexOf (str ''{oops}'') (ARGS_END exampleMarkers) = None"
    by (simp add: exampleMarkers_eq str_def)
  have h8: "list_all isWs nl" by (simp add: nl_def isWs_def)
  have h11: "\<not> JSON_valid (trim (str ''{oops}''))"
    by (simp add: eval_simps)
  have e: "parse exampleMarkers fixedClock [] = Some ([], [])"
    by (simp add: eval_simps)
  have r: "replaceAll (toolCallRegex exampleMarkers) [] = []"
    by (simp add: eval_simps)
  have t: "trim ((str ''Sure.'' @ nl) @ []) = str ''Sure.''"
    by (simp add: trim_def str_def nl_def isWs_def)
  show ?thesis
    using parse_malformed_block [OF h0 h1 h1 exampleMarkers_def h5 h6 h7 h8 h8 h8 h11,
        of fixedClock "[]"] h5 h11 e r t
    by simp
qed

section \<open>Encoding and parsing a list of tool calls\<close>

lemma indexOf_ws:
  assumes "startsVisible p" "list_all isWs w"
  shows "indexOf w p = None"
  using assms(2)
proof (induction w)
  case Nil
  from assms(1) show ?case by (auto simp: startsVisible_def split: list.splits)
next
  case (Cons c w)
  from assms(1) obtain g t where "p = g # t" "\<not> isWs g"
    by (auto simp: startsVisible_def split: list.splits)
  with Cons show ?case by auto
qed

lemma encodeToolCall_envelope:
  "encodeToolCall m tc = nl @ envelopeWs m nl (function_name tc) nl (function_arguments tc) nl"
  by (simp add: encodeToolCall_def envelopeWs_def)

lemma nl_ws: "list_all isWs nl"
  by (simp add: nl_def isWs_def)

lemma parseLoop_encoded:
  assumes "goodMarkers m"
  shows "list_all (encodable m) tcs \<Longrightarrow>
    parseLoop m now (concat (map (encodeToolCall m) tcs)) idx acc
      = Some (acc @ parsedCalls now idx tcs)"
proof (induction tcs arbitrary: idx acc)
  case Nil
  have "regexExec (toolCallRegex m) [] = None"
    by (rule regexExec_empty [OF goodMarkers_TC_START [OF assms]])
  then show ?case
    by (subst parseLoop.simps) (simp del: regexExec.simps)
next
  case (Cons tc tcs)
  let ?rest = "concat (map (encodeToolCall m) tcs)"
  from Cons.prems have e: "encodable m tc" and es: "list_all (encodable m) tcs"
    by simp_all
  from assms have sv: "startsVisible (TC_START m)"
    by (simp add: goodMarkers_def)
  from e have i1: "indexOf (function_name tc) (NAME_END m) = None"
    and i2: "indexOf (function_arguments tc) (ARGS_END m) = None"
    and t1: "trim (function_name tc) = function_name tc"
    and t2: "trim (function_arguments tc) = function_arguments tc"
    and j: "JSON_valid (function_arguments tc)"
    by (simp_all add: encodable_def)
  note ex = regexExec_envelope [OF assms indexOf_ws [OF sv nl_ws] i1 i2 nl_ws nl_ws nl_ws,
      of ?rest]
  have ne: "nl \<noteq> []" by (simp add: nl_def)
  have "parseLoop m now (nl @ envelopeWs m nl (function_name tc) nl (function_arguments tc) nl
      @ ?rest) idx acc
    = parseLoop m now ?rest (Suc idx)
        (acc @ [\<lparr>call_id = str ''call_'' @ showNat (now idx) @ str ''_'' @ showNat idx,
                 call_type = str ''function'',
                 function_name = function_name tc,
                 function_arguments = function_arguments tc\<rparr>])"
    by (subst parseLoop.simps) (simp add: ex ne t1 t2 j del: regexExec.simps)
  also have "\<dots> = Some ((acc @ [\<lparr>call_id = str ''call_'' @ showNat (now idx) @ str ''_''
                   @ showNat idx,
                 call_type = str ''function'',
                 function_name = function_name tc,
                 function_arguments = function_arguments tc\<rparr>])
               @ parsedCalls now (Suc idx) tcs)"
    by (rule Cons.IH [OF es])
  finally show ?case
    by (simp add: encodeToolCall_envelope [of m tc])
qed

lemma replaceAll_encoded:
  assumes "goodMarkers m"
  shows "list_all (encodable m) tcs \<Longrightarrow>
    replaceAll (toolCallRegex m) (concat (map (encodeToolCall m) tcs))
      = concat (replicate (length tcs) nl)"
proof (induction tcs)
  case Nil
  have "regexExec (toolCallRegex m) [] = None"
    by (rule regexExec_empty [OF goodMarkers_TC_START [OF assms]])
  then show ?case
    by (subst replaceAll.simps) (simp del: regexExec.simps)
next
  case (Cons tc tcs)
  from Cons.prems have e: "encodable m tc" and es: "list_all (encodable m) tcs"
    by simp_all
  from assms have sv: "startsVisible (TC_START m)"
    by (simp add: goodMarkers_def)
  from e have i1: "indexOf (function_name tc) (NAME_END m) = None"
    and i2: "indexOf (function_arguments tc) (ARGS_END m) = None"
    by (simp_all add: encodable_def)
  from replaceAll_envelope [OF assms indexOf_ws [OF sv nl_ws] i1 i2 nl_ws nl_ws nl_ws]
    Cons.IH [OF es]
  show ?case by (simp add: encodeToolCall_envelope [of m tc])
qed

lemma trim_ws:
  assumes "list_all isWs w"
  shows "trim w = []"
proof -
  from assms have d: "dropWhile isWs w = []"
    by (simp add: list_all_iff)
  show ?thesis
    unfolding trim_def d by simp
qed

lemma ws_replicate: "list_all isWs (concat (replicate n nl))"
  by (induction n) (simp_all add: nl_ws)

subsection \<open>The generated ids\<close>

lemma isDigit_underscore: "\<not> isDigit 0x5F"
  by (simp add: isDigit_def)

lemma takeWhile_all:
  "list_all P xs \<Longrightarrow> \<not> P y \<Longrightarrow> takeWhile P (xs @ y # ys) = xs"
  by (induction xs) auto

lemma takeWhile_digits:
  "takeWhile isDigit (showNat a @ 0x5F # x) = showNat a"
  by (rule takeWhile_all [OF showNat_digits isDigit_underscore])

lemma showNat_inj:
  assumes "showNat i = showNat j"
  shows "i = j"
proof -
  have "Number (showNat i) = Number (showNat j)"
    by (simp only: assms)
  then show ?thesis
    by (simp only: Number_showNat option.inject)
qed

lemma call_id_inj:
  assumes "str ''call_'' @ showNat a @ str ''_'' @ showNat i
    = str ''call_'' @ showNat b @ str ''_'' @ showNat j"
  shows "i = j"
proof -
  from assms have eq: "showNat a @ 0x5F # showNat i = showNat b @ 0x5F # showNat j"
    by (simp add: str_def)
  then have "takeWhile isDigit (showNat a @ 0x5F # showNat i)
    = takeWhile isDigit (showNat b @ 0x5F # showNat j)"
    by simp
  then have "showNat a = showNat b"
    by (simp only: takeWhile_digits)
  with eq have "showNat i = showNat j" by simp
  then show ?thesis by (rule showNat_inj)
qed

lemma parsedCalls_ids:
  "x \<in> set (map call_id (parsedCalls now idx tcs)) \<Longrightarrow>
    \<exists>i \<ge> idx. x = str ''call_'' @ showNat (now i) @ str ''_'' @ showNat i"
proof (induction tcs arbitrary: idx)
  case Nil
  then show ?case by simp
next
  case (Cons tc tcs)
  from Cons.prems consider
    "x = str ''call_'' @ showNat (now idx) @ str ''_'' @ showNat idx"
    | "x \<in> set (map call_id (parsedCalls now (Suc idx) tcs))"
    by auto
  then show ?case
  proof cases
    case 1
    then show ?thesis by blast
  next
    case 2
    from Cons.IH [OF 2] obtain i where "i \<ge> Suc idx"
      "x = str ''call_'' @ showNat (now i) @ str ''_'' @ showNat i" by blast
    then show ?thesis by (intro exI [of _ i]) simp
  qed
qed

lemma parsedCalls_distinct: "distinct (map call_id (parsedCalls now idx tcs))"
proof (induction tcs arbitrary: idx)
  case Nil
  then show ?case by simp
next
  case (Cons tc tcs)
  have "str ''call_'' @ showNat (now idx) @ str ''_'' @ showNat idx
    \<notin> set (map call_id (parsedCalls now (Suc idx) tcs))"
  proof
    assume "str ''call_'' @ showNat (now idx) @ str ''_'' @ showNat idx
      \<in> set (map call_id (parsedCalls now (Suc idx) tcs))"
    from parsedCalls_ids [OF this] obtain i where i: "i \<ge> Suc idx"
      "str ''call_'' @ showNat (now idx) @ str ''_'' @ showNat idx
        = str ''call_'' @ showNat (now i) @ str ''_'' @ showNat i" by blast
    from call_id_inj [OF i(2)] i(1) show False by simp
  qed
  with Cons.IH [of "Suc idx"] show ?case by simp
qed

lemma parsedCalls_names: "map function_name (parsedCalls now idx tcs) = map function_name tcs"
  by (induction tcs arbitrary: idx) simp_all

lemma parsedCalls_arguments:
  "map function_arguments (parsedCalls now idx tcs) = map function_arguments tcs"
  by (induction tcs arbitrary: idx) simp_all

text \<open>
  A tool call whose arguments are the valid JSON text \<open>{}\<close> followed by a space: the
  parser trims the argument text, so the parsed call has other arguments than the encoded
  one.
\<close>

theorem parse_encoded_counterexample:
  "JSON_valid (str ''{} '')
   \<and> parse exampleMarkers fixedClock
        (concat (map (encodeToolCall exampleMarkers) [exampleCall (str ''add'') (str ''{} '')]))
     = Some ([\<lparr>call_id = str ''call_1700000000000_0'', call_type = str ''function'',
                function_name = str ''add'', function_arguments = str ''{}''\<rparr>], [])
   \<and> str ''{}'' \<noteq> str ''{} ''"
  by (simp add: eval_simps encodeToolCall_def exampleCall_def)

text \<open>
  C4 (amended). For every list of tool calls whose arguments are valid JSON, whose names
  and arguments have no white space at either end and do not contain the marker that
  closes them (\<open>NAME_END\<close>, \<open>ARGS_END\<close>): encoding the list with the request transcoder's
  delimiter encoding and parsing the result yields a tool-call list whose function names
  and arguments equal those of the list pairwise and in the same order, an empty residual
  text, and pairwise distinct generated ids.
\<close>

theorem parse_encoded:
  assumes "r0 < length DELIMITER_SETS" and "r1 < length SUFFIX_POOL"
    and "r2 < length SUFFIX_POOL" and "m = generateMarkers r0 r1 r2"
    and "list_all (encodable m) tcs"
  shows "\<exists>parsed.
    parse m now (concat (map (encodeToolCall m) tcs)) = Some (parsed, [])
    \<and> map function_name parsed = map function_name tcs
    \<and> map function_arguments parsed = map function_arguments tcs
    \<and> distinct (map call_id parsed)"
proof -
  have g: "goodMarkers m"
    unfolding assms(4) by (rule generateMarkers_good [OF assms(1-3)])
  have "parse m now (concat (map (encodeToolCall m) tcs)) = Some (parsedCalls now 0 tcs, [])"
    using parseLoop_encoded [OF g assms(5), of now 0 "[]"]
    by (simp add: parse_def replaceAll_encoded [OF g assms(5)] trim_ws ws_replicate)
  then show ?thesis
    by (simp add: parsedCalls_names parsedCalls_arguments parsedCalls_distinct)
qed

theorem parse_encoded_witness:
  "list_all (encodable exampleMarkers)
     [exampleCall (str ''add'') argsAB, exampleCall (str ''now'') (str ''{}'')]
   \<and> parse exampleMarkers fixedClock
        (concat (map (encodeToolCall exampleMarkers)
           [exampleCall (str ''add'') argsAB, exampleCall (str ''now'') (str ''{}'')]))
     = Some ([\<lparr>call_id = str ''call_1700000000000_0'', call_type = str ''function'',
                function_name = str ''add'', function_arguments = argsAB\<rparr>,
              \<lparr>call_id = str ''call_1700000000000_1'', call_type = str ''function'',
                function_name = str ''now'', function_arguments = str ''{}''\<rparr>], [])"
proof -
  have h0: "(0::nat) < length DELIMITER_SETS" by (simp add: DELIMITER_SETS_def)
  have h1: "(0::nat) < length SUFFIX_POOL" by (simp add: SUFFIX_POOL_def)
  have h5: "list_all (encodable exampleMarkers)
     [exampleCall (str ''add'') argsAB, exampleCall (str ''now'') (str ''{}'')]"
    by (simp add: encodable_def exampleCall_def argsAB_def eval_simps)
  have p: "parse exampleMarkers fixedClock
        (concat (map (encodeToolCall exampleMarkers)
           [exampleCall (str ''add'') argsAB, exampleCall (str ''now'') (str ''{}'')]))
     = Some ([\<lparr>call_id = str ''call_1700000000000_0'', call_type = str ''function'',
                function_name = str ''add'', function_arguments = argsAB\<rparr>,
              \<lparr>call_id = str ''call_1700000000000_1'', call_type = str ''function'',
                function_name = str ''now'', function_arguments = str ''{}''\<rparr>], [])"
    by (simp add: eval_simps encodeToolCall_def exampleCall_def argsAB_def)
  show ?thesis
    using parse_encoded [OF h0 h1 h1 exampleMarkers_def h5, of fixedClock] h5 p
    by simp
qed

section \<open>Lines and actions\<close>







subsection \<open>The line buffer\<close>





lemma consHead_nonempty: "consHead c ls \<noteq> []"
  by (cases ls) auto




lemma consHead_append: "xs \<noteq> [] \<Longrightarrow> consHead c (xs @ ys) = consHead c xs @ ys"
  by (cases xs) auto

lemma butlast_consHead:
  "butlast (consHead c (x # y # ys)) = consHead c (butlast (x # y # ys))"
  by simp










section \<open>A stream without the start marker\<close>




lemma indexOf_middle_None:
  assumes "indexOf (a @ b @ c) p = None"
  shows "indexOf b p = None"
  using indexOf_append_None [OF assms] indexOf_append_None [of b c p] by simp







text \<open>
  A stream with a \<open>data: null\<close> line between two deltas: \<open>processLine\<close> throws at that
  line and the transformer does not return.
\<close>

lemma null_payload_example:
  "throwsOn decodeSimple (str ''data: null'')
   \<and> runTransformer exampleMarkers fixedClock decodeSimple
        [dataLine (str ''Hello'') @ nl @ str ''data: null'' @ nl
         @ dataLine (str ''world'') @ nl @ doneLine @ nl] = None"
  by (simp add: throwsOn_def runTransformer_def
      initialState_def transform_def flush_def processLine_def finishBuffered_def
      finishChunk_def textChunk_def includesFirst_def includesStr_def
      doneLine_def dataLine_def deltaPrefix_def deltaSuffix_def decodeSimple_def
      exampleMarkers_eq str_def nl_def trim_def isWs_def Let_def)



section \<open>A stream that ends with a tool-call block\<close>




















end
